theory Spec2Isabelle
  imports Main "HOL-Library.Sublist" "HOL-Library.AList"
begin

section \<open>The blueprint builder of internal/docker/builder.go\<close>

text \<open>
  The builder talks to a Docker daemon, to the image deployer and to the instruction
  runner. None of the three is part of builder.go, so they are a parameter of the model:
  a record \<open>Env\<close> of functions, one per call the builder makes. The state the builder
  threads through its calls is the \<open>history\<close>: the list of calls issued and of lines
  printed so far, oldest first. Every function of the environment receives the history
  at the moment of the call, so that its answer may depend on everything that happened
  before (a daemon whose image list grows after a commit, a clock that advances while
  the builder sleeps).

  A Go \<open>map[string]string\<close> is an association list, read with \<open>map_of\<close>, written with
  \<open>AList.update\<close> and ranged over in the order of the list (Go leaves that order
  unspecified; no statement below depends on it).
\<close>

subsection \<open>Data\<close>

type_synonym gomap = "(string \<times> string) list"

record ApplicationService =
  asID :: string
  HSToken :: string
  ASToken :: string
  URL :: string
  SenderLocalpart :: string
  RateLimited :: bool
  SendEphemeral :: bool
  EnableEncryption :: bool

record Homeserver =
  Name :: string
  BaseImageURI :: "string option"
  ApplicationServices :: "ApplicationService list"

record Blueprint =
  bpName :: string
  Homeservers :: "Homeserver list"
  KeepAccessTokensForUsers :: "string list"

record Config =
  PackageNamespace :: string
  DebugLoggingEnabled :: bool
  KeepBlueprints :: "string list"
  cfgBaseImageURI :: string
  BaseImageURIs :: gomap
  BestEffort :: bool

record NetworkSummary =
  nwID :: string
  nwName :: string

record CreateResponse =
  crID :: string
  Warning :: string

record ImageSummary =
  imgID :: string
  RepoTags :: "string list"
  Labels :: gomap

record ContainerSummary =
  ctrID :: string

record HomeserverDeployment =
  BaseURL :: string
  ContainerID :: string

record PortBinding =
  HostIP :: string
  HostPort :: string

type_synonym PortMap = "string \<rightharpoonup> PortBinding list"

record CommitOptions =
  Author :: string
  Pause :: bool
  Reference :: string
  Changes :: "string list"
  ConfigGiven :: bool

record DeployArgs =
  daImageURI :: string
  daContainerName :: string
  daPkgNamespace :: string
  daBlueprintName :: string
  daHSName :: string
  daAsIDToRegistrationMap :: gomap
  daContextStr :: string
  daNetworkName :: string

text \<open>
  A Go \<open>error\<close>. \<open>ClientErr\<close> is an error handed back by the Docker client or by a
  collaborator; every other constructor is one \<open>fmt.Errorf\<close> of builder.go, holding the
  arguments of its format string (the \<open>%v\<close> dump of the port map in the three errors of
  \<open>findPortBinding\<close> is left out).
\<close>

datatype err =
    ClientErr string
  | ErrIfNotExistImageList string err
  | ErrIfNotExistConstruct string err
  | ErrWhilstConstructing string "err list"
  | ErrImagesNotFound
  | ErrContainerCommit string err
  | ErrListNetworks string err
  | ErrCreateNetwork string err
  | ErrFatalWarning string string
  | ErrEmptyNetworkID string
  | ErrPortNotExposed string
  | ErrPortNotMapped string
  | ErrNoMatchingBinding string string
  | ErrCSPort err
  | ErrSSPort err

text \<open>One constructor per format string handed to \<open>d.log\<close> or \<open>log.Printf\<close>.\<close>

datatype logmsg =
    LogCleanupContainers err
  | LogCleanupImages err
  | LogCleanupNetworks err
  | LogNotCleaningUp "string list"
  | LogKeeping string
  | LogCouldNotConstruct err
  | LogConstructed string "(string \<times> gomap) list"
  | LogConstructing string
  | LogFailedRemoveContainer string err
  | LogCantGetStatus string string
  | LogFailedKill string string err
  | LogStopping string string
  | LogStopped string string
  | LogFailedCommit string err
  | LogCreatedImage string string
  | LogConstructingHomeserver string
  | LogDeployed string string string
  | LogFailedRun string err
  | LogFailedDeploy string err
  | LogWarnNetworks nat string string
  | LogWarning string
  | LogFailedExtractLogs string err
  | LogSeparator
  | LogServerLogs string
  | LogEndLogs string

text \<open>
  What the builder does to the outside world: a call of the Docker client or of a
  collaborator with its arguments, a sleep, or a line on the process log.
\<close>

datatype event =
    is_CallNetworkList: CallNetworkList "string list"
  | is_CallNetworkRemove: CallNetworkRemove string
  | is_CallNetworkCreate: CallNetworkCreate string gomap
  | is_CallImageList: CallImageList "string list"
  | is_CallImageRemove: CallImageRemove string bool
  | is_CallContainerList: CallContainerList bool "string list"
  | is_CallContainerRemove: CallContainerRemove string bool
  | is_CallContainerInspect: CallContainerInspect string
  | is_CallContainerKill: CallContainerKill string string
  | is_CallContainerStop: CallContainerStop string int
  | is_CallContainerCommit: CallContainerCommit string CommitOptions
  | is_CallContainerLogs: CallContainerLogs string
  | is_CallDeployImage: CallDeployImage DeployArgs
  | is_CallRunnerRun: CallRunnerRun Homeserver string
  | is_CallSleep: CallSleep int
  | is_LogPrintf: LogPrintf logmsg
  | is_LogWrite: LogWrite string

type_synonym history = "event list"

text \<open>The answer of \<open>deployImage\<close>: a deployment, or an error with or without one.\<close>

datatype DeployResult =
    DeployOk HomeserverDeployment
  | DeployFail err "HomeserverDeployment option"

text \<open>
  The environment. \<open>ContainerInspect\<close> answers with \<open>State.Running\<close>,
  \<open>ContainerCommit\<close> with the identifier of the new image, \<open>ContainerLogs\<close> with what
  the reader yields. \<open>Now\<close> is the reading of the monotonic clock after a history
  (in nanoseconds, as \<open>time.Duration\<close> counts): time passes during calls and sleeps,
  not between them.
  \<open>labelsForApplicationServices\<close> and \<open>asIDToRegistrationFromLabels\<close> are helpers of
  the package that are not in builder.go.
\<close>

record Env =
  NetworkList :: "history \<Rightarrow> string list \<Rightarrow> err + NetworkSummary list"
  NetworkRemove :: "history \<Rightarrow> string \<Rightarrow> err option"
  NetworkCreate :: "history \<Rightarrow> string \<Rightarrow> gomap \<Rightarrow> err + CreateResponse"
  ImageList :: "history \<Rightarrow> string list \<Rightarrow> err + ImageSummary list"
  ImageRemove :: "history \<Rightarrow> string \<Rightarrow> bool \<Rightarrow> err option"
  ContainerList :: "history \<Rightarrow> bool \<Rightarrow> string list \<Rightarrow> err + ContainerSummary list"
  ContainerRemove :: "history \<Rightarrow> string \<Rightarrow> bool \<Rightarrow> err option"
  ContainerInspect :: "history \<Rightarrow> string \<Rightarrow> err + bool"
  ContainerKill :: "history \<Rightarrow> string \<Rightarrow> string \<Rightarrow> err option"
  ContainerStop :: "history \<Rightarrow> string \<Rightarrow> int \<Rightarrow> err option"
  ContainerCommit :: "history \<Rightarrow> string \<Rightarrow> CommitOptions \<Rightarrow> err + string"
  ContainerLogs :: "history \<Rightarrow> string \<Rightarrow> err + string"
  deployImage :: "history \<Rightarrow> DeployArgs \<Rightarrow> DeployResult"
  runnerRun :: "history \<Rightarrow> Homeserver \<Rightarrow> string \<Rightarrow> err option"
  AccessTokens :: "history \<Rightarrow> string \<Rightarrow> gomap"
  DeviceIDs :: "history \<Rightarrow> string \<Rightarrow> gomap"
  labelsForApplicationServices :: "Homeserver \<Rightarrow> gomap"
  asIDToRegistrationFromLabels :: "gomap \<Rightarrow> gomap"
  Now :: "history \<Rightarrow> int"

subsection \<open>Small helpers\<close>

definition complementLabel :: string where
  "complementLabel = ''complement_context''"

text \<open>
  Modelled from the spec: \<open>label\<close> is defined elsewhere in the package. It turns label
  filters (\<open>key\<close> or \<open>key=value\<close>) into the filter argument of a list call, "exact-match,
  ANDed across all supplied tags"; the model keeps the list of filters itself.
\<close>

definition label :: "string list \<Rightarrow> string list" where
  "label labelFilters = labelFilters"

definition HasPrefix :: "string \<Rightarrow> string \<Rightarrow> bool" where
  "HasPrefix s pre = prefix pre s"

text \<open>\<open>d.log\<close>: prints only when debug logging is enabled.\<close>

definition dlog :: "Config \<Rightarrow> logmsg \<Rightarrow> history \<Rightarrow> history" where
  "dlog cfg m h = (if \<not> DebugLoggingEnabled cfg then h else h @ [LogPrintf m])"

text \<open>\<open>fmt.Sprintf("%d", n)\<close> for a Go \<open>int\<close>.\<close>

fun digits :: "nat \<Rightarrow> string" where
  "digits n = (if n < 10 then [''0123456789'' ! n]
               else digits (n div 10) @ [''0123456789'' ! (n mod 10)])"

declare digits.simps [simp del]

definition sprint_d :: "int \<Rightarrow> string" where
  "sprint_d i = (if i < 0 then CHR ''-'' # digits (nat (- i)) else digits (nat i))"

subsection \<open>findPortBinding\<close>

fun findPortBindingLoop :: "string \<Rightarrow> PortBinding list \<Rightarrow> PortBinding option" where
  "findPortBindingLoop hsPortBindingIP [] = None"
| "findPortBindingLoop hsPortBindingIP (pb # pbs) =
     (if HostIP pb = hsPortBindingIP then Some pb
      else if HostIP pb = ''0.0.0.0''
        then Some \<lparr>HostIP = hsPortBindingIP, HostPort = HostPort pb\<rparr>
      else if HostIP pb = '''' \<and> hsPortBindingIP = ''127.0.0.1''
        then Some \<lparr>HostIP = hsPortBindingIP, HostPort = HostPort pb\<rparr>
      else findPortBindingLoop hsPortBindingIP pbs)"

definition findPortBinding :: "PortMap \<Rightarrow> string \<Rightarrow> int \<Rightarrow> err + PortBinding" where
  "findPortBinding p hsPortBindingIP port =
     (let portString = sprint_d port @ ''/tcp'' in
      case p portString of
        None \<Rightarrow> Inl (ErrPortNotExposed portString)
      | Some portBindings \<Rightarrow>
          if length portBindings = 0 then Inl (ErrPortNotMapped portString)
          else (case findPortBindingLoop hsPortBindingIP portBindings of
                  Some pb \<Rightarrow> Inr pb
                | None \<Rightarrow> Inl (ErrNoMatchingBinding hsPortBindingIP portString)))"

text \<open>The three rules of the loop body, as one test on a binding.\<close>

definition bindingAccepted :: "string \<Rightarrow> PortBinding \<Rightarrow> bool" where
  "bindingAccepted hsPortBindingIP pb =
     (HostIP pb = hsPortBindingIP \<or> HostIP pb = ''0.0.0.0''
      \<or> (HostIP pb = '''' \<and> hsPortBindingIP = ''127.0.0.1''))"

subsection \<open>Cleanup\<close>

fun removeNetworksLoop :: "Env \<Rightarrow> NetworkSummary list \<Rightarrow> history \<Rightarrow> err option \<times> history" where
  "removeNetworksLoop env [] h = (None, h)"
| "removeNetworksLoop env (nw # nws) h =
     (case NetworkRemove env h (nwID nw) of
        Some e \<Rightarrow> (Some e, h @ [CallNetworkRemove (nwID nw)])
      | None \<Rightarrow> removeNetworksLoop env nws (h @ [CallNetworkRemove (nwID nw)]))"

definition removeNetworks :: "Env \<Rightarrow> Config \<Rightarrow> history \<Rightarrow> err option \<times> history" where
  "removeNetworks env cfg h =
     (let fs = label [complementLabel, ''complement_pkg='' @ PackageNamespace cfg] in
      case NetworkList env h fs of
        Inl e \<Rightarrow> (Some e, h @ [CallNetworkList fs])
      | Inr networks \<Rightarrow> removeNetworksLoop env networks (h @ [CallNetworkList fs]))"

text \<open>The two inner loops of \<open>removeImages\<close>, each leaving at its \<open>break\<close>.\<close>

fun isLocalhost :: "string list \<Rightarrow> bool" where
  "isLocalhost [] = True"
| "isLocalhost (rt # rts) =
     (if \<not> HasPrefix rt ''localhost/complement'' then False else isLocalhost rts)"

fun keepLoop :: "string \<Rightarrow> string list \<Rightarrow> bool" where
  "keepLoop bprintName [] = False"
| "keepLoop bprintName (keepBprint # rest) =
     (if bprintName = keepBprint then True else keepLoop bprintName rest)"

text \<open>Reading a Go map of strings: a missing key reads as the empty string.\<close>

definition lookupLabel :: "gomap \<Rightarrow> string \<Rightarrow> string" where
  "lookupLabel m k = (case map_of m k of None \<Rightarrow> [] | Some v \<Rightarrow> v)"

fun removeImagesLoop :: "Env \<Rightarrow> Config \<Rightarrow> ImageSummary list \<Rightarrow> history \<Rightarrow> err option \<times> history" where
  "removeImagesLoop env cfg [] h = (None, h)"
| "removeImagesLoop env cfg (img # imgs) h =
     (if \<not> isLocalhost (RepoTags img)
        then removeImagesLoop env cfg imgs (dlog cfg (LogNotCleaningUp (RepoTags img)) h)
      else let bprintName = lookupLabel (Labels img) ''complement_blueprint'' in
        if keepLoop bprintName (KeepBlueprints cfg)
          then removeImagesLoop env cfg imgs (dlog cfg (LogKeeping bprintName) h)
        else (case ImageRemove env h (imgID img) True of
                Some e \<Rightarrow> (Some e, h @ [CallImageRemove (imgID img) True])
              | None \<Rightarrow> removeImagesLoop env cfg imgs (h @ [CallImageRemove (imgID img) True])))"

definition removeImages :: "Env \<Rightarrow> Config \<Rightarrow> history \<Rightarrow> err option \<times> history" where
  "removeImages env cfg h =
     (let fs = label [complementLabel, ''complement_pkg='' @ PackageNamespace cfg] in
      case ImageList env h fs of
        Inl e \<Rightarrow> (Some e, h @ [CallImageList fs])
      | Inr images \<Rightarrow> removeImagesLoop env cfg images (h @ [CallImageList fs]))"

fun removeContainersLoop :: "Env \<Rightarrow> ContainerSummary list \<Rightarrow> history \<Rightarrow> err option \<times> history" where
  "removeContainersLoop env [] h = (None, h)"
| "removeContainersLoop env (c # cs) h =
     (case ContainerRemove env h (ctrID c) True of
        Some e \<Rightarrow> (Some e, h @ [CallContainerRemove (ctrID c) True])
      | None \<Rightarrow> removeContainersLoop env cs (h @ [CallContainerRemove (ctrID c) True]))"

definition removeContainers :: "Env \<Rightarrow> Config \<Rightarrow> history \<Rightarrow> err option \<times> history" where
  "removeContainers env cfg h =
     (let fs = label [complementLabel, ''complement_pkg='' @ PackageNamespace cfg] in
      case ContainerList env h True fs of
        Inl e \<Rightarrow> (Some e, h @ [CallContainerList True fs])
      | Inr containers \<Rightarrow> removeContainersLoop env containers (h @ [CallContainerList True fs]))"

text \<open>
  \<open>Cleanup\<close> returns nothing; the model returns the history it leaves. Each of its
  three steps is a pass followed by \<open>d.log\<close> of the error the pass returned, if any.
\<close>

definition cleanupContainers :: "Env \<Rightarrow> Config \<Rightarrow> history \<Rightarrow> history" where
  "cleanupContainers env cfg h =
     (let (err, h1) = removeContainers env cfg h in
      case err of Some e \<Rightarrow> dlog cfg (LogCleanupContainers e) h1 | None \<Rightarrow> h1)"

definition cleanupImages :: "Env \<Rightarrow> Config \<Rightarrow> history \<Rightarrow> history" where
  "cleanupImages env cfg h =
     (let (err, h1) = removeImages env cfg h in
      case err of Some e \<Rightarrow> dlog cfg (LogCleanupImages e) h1 | None \<Rightarrow> h1)"

definition cleanupNetworks :: "Env \<Rightarrow> Config \<Rightarrow> history \<Rightarrow> history" where
  "cleanupNetworks env cfg h =
     (let (err, h1) = removeNetworks env cfg h in
      case err of Some e \<Rightarrow> dlog cfg (LogCleanupNetworks e) h1 | None \<Rightarrow> h1)"

definition Cleanup :: "Env \<Rightarrow> Config \<Rightarrow> history \<Rightarrow> history" where
  "Cleanup env cfg h =
     cleanupNetworks env cfg (cleanupImages env cfg (cleanupContainers env cfg h))"

subsection \<open>Networks, logs, one homeserver\<close>

definition createNetworkIfNotExists ::
  "Env \<Rightarrow> string \<Rightarrow> string \<Rightarrow> history \<Rightarrow> (err + string) \<times> history" where
  "createNetworkIfNotExists env pkgNamespace blueprintName h =
     (let fs = label [''complement_pkg='' @ pkgNamespace, ''complement_blueprint='' @ blueprintName];
          h1 = h @ [CallNetworkList fs] in
      case NetworkList env h fs of
        Inl e \<Rightarrow> (Inl (ErrListNetworks blueprintName e), h1)
      | Inr nws \<Rightarrow>
          if length nws > 0 then
            (Inr (nwName (hd nws)),
             if length nws > 1
               then h1 @ [LogPrintf (LogWarnNetworks (length nws) pkgNamespace blueprintName)]
               else h1)
          else
            let networkName = ''complement_'' @ pkgNamespace @ ''_'' @ blueprintName;
                labels = [(complementLabel, blueprintName),
                          (''complement_blueprint'', blueprintName),
                          (''complement_pkg'', pkgNamespace)];
                h2 = h1 @ [CallNetworkCreate networkName labels] in
            case NetworkCreate env h1 networkName labels of
              Inl e \<Rightarrow> (Inl (ErrCreateNetwork blueprintName e), h2)
            | Inr nw \<Rightarrow>
                if Warning nw \<noteq> [] \<and> crID nw = []
                  then (Inl (ErrFatalWarning blueprintName (Warning nw)), h2)
                else
                  let h3 = (if Warning nw \<noteq> [] then h2 @ [LogPrintf (LogWarning (Warning nw))]
                            else h2) in
                  if crID nw = [] then (Inl (ErrEmptyNetworkID blueprintName), h3)
                  else (Inr networkName, h3))"

definition printLogs :: "Env \<Rightarrow> string \<Rightarrow> string \<Rightarrow> history \<Rightarrow> history" where
  "printLogs env cid ctx h =
     (let h1 = h @ [CallContainerLogs cid] in
      case ContainerLogs env h cid of
        Inl e \<Rightarrow> h1 @ [LogPrintf (LogFailedExtractLogs ctx e)]
      | Inr content \<Rightarrow>
          h1 @ [LogPrintf LogSeparator, LogPrintf (LogServerLogs ctx), LogWrite content,
                LogPrintf (LogEndLogs ctx)])"

text \<open>The struct \<open>result\<close>; its fields carry the prefix \<open>res_\<close>.\<close>

record result =
  res_err :: "err option"
  res_containerID :: string
  res_contextStr :: string
  res_homeserver :: Homeserver

definition zeroResult :: result where
  "zeroResult = \<lparr>res_err = None, res_containerID = [], res_contextStr = [],
                 res_homeserver = \<lparr>Name = [], BaseImageURI = None, ApplicationServices = []\<rparr>\<rparr>"

definition deployBaseImage ::
  "Env \<Rightarrow> Config \<Rightarrow> string \<Rightarrow> Homeserver \<Rightarrow> string \<Rightarrow> string \<Rightarrow> history
    \<Rightarrow> DeployResult \<times> history" where
  "deployBaseImage env cfg blueprintName hs ctx networkName h =
     (let asIDToRegistrationMap =
            asIDToRegistrationFromLabels env (labelsForApplicationServices env hs);
          baseImageURI =
            (case BaseImageURI hs of
               None \<Rightarrow> (case map_of (BaseImageURIs cfg) (Name hs) of
                          Some uri \<Rightarrow> uri
                        | None \<Rightarrow> cfgBaseImageURI cfg)
             | Some uri \<Rightarrow> uri);
          args = \<lparr>daImageURI = baseImageURI, daContainerName = ''complement_'' @ ctx,
                  daPkgNamespace = PackageNamespace cfg, daBlueprintName = blueprintName,
                  daHSName = Name hs, daAsIDToRegistrationMap = asIDToRegistrationMap,
                  daContextStr = ctx, daNetworkName = networkName\<rparr>
      in (deployImage env h args, h @ [CallDeployImage args]))"

definition constructHomeserver ::
  "Env \<Rightarrow> Config \<Rightarrow> string \<Rightarrow> Homeserver \<Rightarrow> string \<Rightarrow> history \<Rightarrow> result \<times> history" where
  "constructHomeserver env cfg blueprintName hs networkName h =
     (let ctx = PackageNamespace cfg @ ''.'' @ blueprintName @ ''.'' @ Name hs;
          h1 = dlog cfg (LogConstructingHomeserver ctx) h;
          (dep, h2) = deployBaseImage env cfg blueprintName hs ctx networkName h1 in
      case dep of
        DeployFail e d \<Rightarrow>
          (\<lparr>res_err = Some e,
            res_containerID = (case d of None \<Rightarrow> [] | Some dp \<Rightarrow> ContainerID dp),
            res_contextStr = ctx, res_homeserver = hs\<rparr>,
           h2 @ [LogPrintf (LogFailedDeploy ctx e)])
      | DeployOk dp \<Rightarrow>
          let h3 = dlog cfg (LogDeployed ctx (BaseURL dp) (ContainerID dp)) h2;
              r = runnerRun env h3 hs (BaseURL dp);
              h4 = h3 @ [CallRunnerRun hs (BaseURL dp)];
              h5 = (case r of Some e \<Rightarrow> dlog cfg (LogFailedRun ctx e) h4 | None \<Rightarrow> h4)
          in (\<lparr>res_err = r, res_containerID = ContainerID dp,
               res_contextStr = ctx, res_homeserver = hs\<rparr>, h5))"

subsection \<open>construct\<close>

text \<open>The function deferred for every homeserver that was constructed.\<close>

definition deferredKill :: "Env \<Rightarrow> Config \<Rightarrow> result \<Rightarrow> history \<Rightarrow> history" where
  "deferredKill env cfg r h =
     (let h1 = h @ [CallContainerInspect (res_containerID r)] in
      case ContainerInspect env h (res_containerID r) of
        Inl e \<Rightarrow> dlog cfg (LogCantGetStatus (res_contextStr r) (res_containerID r)) h1
      | Inr running \<Rightarrow>
          if \<not> running then h1
          else
            let h2 = h1 @ [CallContainerKill (res_containerID r) ''KILL''] in
            case ContainerKill env h1 (res_containerID r) ''KILL'' of
              Some killErr \<Rightarrow>
                dlog cfg (LogFailedKill (res_contextStr r) (res_containerID r) killErr) h2
            | None \<Rightarrow> h2)"

text \<open>
  Go runs the deferred calls of a function when it returns, last registered first.
  The stack of deferred calls is a list with the last registered result at its head.
\<close>

fun runDeferred :: "Env \<Rightarrow> Config \<Rightarrow> result list \<Rightarrow> history \<Rightarrow> history" where
  "runDeferred env cfg [] h = h"
| "runDeferred env cfg (r # rs) h = runDeferred env cfg rs (deferredKill env cfg r h)"

text \<open>
  The first loop of \<open>construct\<close>, from index \<open>i\<close> on. Its answer says whether the loop
  left through its \<open>return\<close>, and gives \<open>results\<close>, the stack of deferred calls and
  \<open>errs\<close>.
\<close>

fun constructLoop ::
  "Env \<Rightarrow> Config \<Rightarrow> string \<Rightarrow> string \<Rightarrow> Homeserver list \<Rightarrow> nat \<Rightarrow> result list \<Rightarrow> result list
    \<Rightarrow> err list \<Rightarrow> history \<Rightarrow> (bool \<times> result list \<times> result list \<times> err list) \<times> history" where
  "constructLoop env cfg blueprintName networkName [] i results deferred errs h =
     ((False, results, deferred, errs), h)"
| "constructLoop env cfg blueprintName networkName (hs # rest) i results deferred errs h =
     (let (res, h1) = constructHomeserver env cfg blueprintName hs networkName h in
      case res_err res of
        Some e \<Rightarrow>
          let errs1 = errs @ [e];
              h2 = (if res_containerID res \<noteq> []
                      then printLogs env (res_containerID res) (res_contextStr res) h1
                    else h1);
              delErr = ContainerRemove env h2 (res_containerID res) True;
              h3 = h2 @ [CallContainerRemove (res_containerID res) True];
              h4 = (case delErr of
                      Some de \<Rightarrow> dlog cfg (LogFailedRemoveContainer (res_contextStr res) de) h3
                    | None \<Rightarrow> h3)
          in ((True, results, deferred, errs1), h4)
      | None \<Rightarrow>
          constructLoop env cfg blueprintName networkName rest (Suc i)
            (results[i := res]) (res # deferred) errs h1)"

text \<open>\<open>strings.Replace(s, old, new, 1)\<close> for a non-empty \<open>old\<close>.\<close>

fun ReplaceFirst :: "string \<Rightarrow> string \<Rightarrow> string \<Rightarrow> string" where
  "ReplaceFirst [] old new = []"
| "ReplaceFirst (c # cs) old new =
     (if prefix old (c # cs) then new @ drop (length old) (c # cs)
      else c # ReplaceFirst cs old new)"

text \<open>The loops that fill \<open>labels\<close>.\<close>

fun keepListed :: "gomap \<Rightarrow> string list \<Rightarrow> gomap \<Rightarrow> gomap" where
  "keepListed accessTokens [] labels = labels"
| "keepListed accessTokens (userID # rest) labels =
     (case map_of accessTokens userID of
        Some tok \<Rightarrow>
          keepListed accessTokens rest (AList.update (''access_token_'' @ userID) tok labels)
      | None \<Rightarrow> keepListed accessTokens rest labels)"

fun addLabels :: "string \<Rightarrow> gomap \<Rightarrow> gomap \<Rightarrow> gomap" where
  "addLabels pre [] labels = labels"
| "addLabels pre ((k, v) # rest) labels = addLabels pre rest (AList.update (pre @ k) v labels)"

definition tokenLabels :: "string list \<Rightarrow> gomap \<Rightarrow> gomap" where
  "tokenLabels keepUsers accessTokens =
     (if length keepUsers > 0 then keepListed accessTokens keepUsers []
      else addLabels ''access_token_'' accessTokens [])"

definition commitLabels :: "Env \<Rightarrow> Blueprint \<Rightarrow> result \<Rightarrow> history \<Rightarrow> gomap" where
  "commitLabels env bprint res h =
     (let accessTokens = AccessTokens env h (Name (res_homeserver res));
          labels1 = tokenLabels (KeepAccessTokensForUsers bprint) accessTokens;
          deviceIDs = DeviceIDs env h (Name (res_homeserver res));
          labels2 = addLabels ''device_id'' deviceIDs labels1;
          asLabels = labelsForApplicationServices env (res_homeserver res)
      in addLabels [] asLabels labels2)"

definition toChanges :: "gomap \<Rightarrow> string list" where
  "toChanges labels =
     map (\<lambda>(k, v). ''LABEL '' @ [CHR 0x22] @ k @ [CHR 0x22] @ ''='' @ [CHR 0x22] @ v @ [CHR 0x22])
       labels"

text \<open>The second loop of \<open>construct\<close>. The answer of \<open>ContainerStop\<close> is dropped.\<close>

fun commitLoop ::
  "Env \<Rightarrow> Config \<Rightarrow> Blueprint \<Rightarrow> result list \<Rightarrow> err list \<Rightarrow> history \<Rightarrow> err list \<times> history" where
  "commitLoop env cfg bprint [] errs h = (errs, h)"
| "commitLoop env cfg bprint (res # rest) errs h =
     (if res_err res \<noteq> None then commitLoop env cfg bprint rest errs h
      else
        let labels = commitLabels env bprint res h;
            h1 = dlog cfg (LogStopping (res_contextStr res) (res_containerID res)) h;
            h2 = h1 @ [CallContainerStop (res_containerID res) 10];
            h3 = dlog cfg (LogStopped (res_contextStr res) (res_containerID res)) h2;
            opts = \<lparr>Author = ''Complement'', Pause = True,
                    Reference = ''localhost/complement:'' @ res_contextStr res,
                    Changes = toChanges labels, ConfigGiven = True\<rparr>;
            h4 = h3 @ [CallContainerCommit (res_containerID res) opts] in
        case ContainerCommit env h3 (res_containerID res) opts of
          Inl e \<Rightarrow>
            commitLoop env cfg bprint rest
              (errs @ [ErrContainerCommit (res_contextStr res) e])
              (dlog cfg (LogFailedCommit (res_contextStr res) e) h4)
        | Inr commitID \<Rightarrow>
            commitLoop env cfg bprint rest errs
              (dlog cfg (LogCreatedImage (res_contextStr res)
                           (ReplaceFirst commitID ''sha256:'' [])) h4))"

definition construct :: "Env \<Rightarrow> Config \<Rightarrow> Blueprint \<Rightarrow> history \<Rightarrow> err list \<times> history" where
  "construct env cfg bprint h =
     (let h0 = dlog cfg (LogConstructing (bpName bprint)) h;
          (nwr, h1) = createNetworkIfNotExists env (PackageNamespace cfg) (bpName bprint) h0 in
      case nwr of
        Inl e \<Rightarrow> ([e], h1)
      | Inr networkName \<Rightarrow>
          let results0 = replicate (length (Homeservers bprint)) zeroResult;
              ((returned, results, deferred, errs), h2) =
                 constructLoop env cfg (bpName bprint) networkName (Homeservers bprint) 0
                   results0 [] [] h1 in
          if returned then (errs, runDeferred env cfg deferred h2)
          else
            let (errs1, h3) = commitLoop env cfg bprint results errs h2 in
            (errs1, runDeferred env cfg deferred h3))"

subsection \<open>ConstructBlueprint and ConstructBlueprintIfNotExist\<close>

definition Second :: int where
  "Second = 1000000000"

definition Millisecond :: int where
  "Millisecond = 1000000"

text \<open>
  The polling loop of \<open>ConstructBlueprint\<close>. It runs as long as the clock allows, so
  it is a partial function: \<open>None\<close> is a loop that never ends. Its answer gives
  \<open>err\<close> when the loop left through \<open>return err\<close>, and \<open>foundImages\<close> and \<open>images\<close>.
\<close>

partial_function (option) pollImages ::
  "Env \<Rightarrow> Config \<Rightarrow> Blueprint \<Rightarrow> int \<Rightarrow> ImageSummary list \<Rightarrow> history
    \<Rightarrow> ((err option \<times> bool \<times> ImageSummary list) \<times> history) option" where
  "pollImages env cfg bprint startTime images h =
     (if Now env h - startTime < 5 * Second then
        (let fs = label [complementLabel, ''complement_blueprint='' @ bpName bprint,
                         ''complement_pkg='' @ PackageNamespace cfg];
             h1 = h @ [CallImageList fs] in
         case ImageList env h fs of
           Inl e \<Rightarrow> Some ((Some e, False, []), h1)
         | Inr imgs \<Rightarrow>
             if length imgs < length (Homeservers bprint)
               then pollImages env cfg bprint startTime imgs (h1 @ [CallSleep (100 * Millisecond)])
             else Some ((None, True, imgs), h1))
      else Some ((None, False, images), h))"

definition ConstructBlueprint ::
  "Env \<Rightarrow> Config \<Rightarrow> Blueprint \<Rightarrow> history \<Rightarrow> (err option \<times> history) option" where
  "ConstructBlueprint env cfg bprint h =
     (let (errs, h1) = construct env cfg bprint h in
      if length errs > 0 then
        Some (Some (ErrWhilstConstructing (bpName bprint) errs),
              fold (\<lambda>e. dlog cfg (LogCouldNotConstruct e)) errs h1)
      else
        case pollImages env cfg bprint (Now env h1) [] h1 of
          None \<Rightarrow> None
        | Some ((perr, foundImages, images), h2) \<Rightarrow>
            (case perr of
               Some e \<Rightarrow> Some (Some e, h2)
             | None \<Rightarrow>
                 let h3 = snd (removeNetworks env cfg h2) in
                 if \<not> foundImages then Some (Some ErrImagesNotFound, h3)
                 else Some (None,
                        dlog cfg (LogConstructed (bpName bprint)
                                    (map (\<lambda>img. (imgID img, Labels img)) images)) h3)))"

definition ConstructBlueprintIfNotExist ::
  "Env \<Rightarrow> Config \<Rightarrow> Blueprint \<Rightarrow> history \<Rightarrow> (err option \<times> history) option" where
  "ConstructBlueprintIfNotExist env cfg bprint h =
     (let fs = label [''complement_blueprint='' @ bpName bprint,
                      ''complement_pkg='' @ PackageNamespace cfg];
          h1 = h @ [CallImageList fs] in
      case ImageList env h fs of
        Inl e \<Rightarrow> Some (Some (ErrIfNotExistImageList (bpName bprint) e), h1)
      | Inr images \<Rightarrow>
          if length images = 0 then
            (case ConstructBlueprint env cfg bprint h1 of
               None \<Rightarrow> None
             | Some (Some e, h2) \<Rightarrow> Some (Some (ErrIfNotExistConstruct (bpName bprint) e), h2)
             | Some (None, h2) \<Rightarrow> Some (None, h2))
          else Some (None, h1))"

section \<open>Notions used by the statements\<close>

text \<open>
  \<open>emits A h h'\<close>: the history \<open>h'\<close> extends \<open>h\<close>, and every event added satisfies \<open>A\<close>.
\<close>

definition emits :: "(event \<Rightarrow> bool) \<Rightarrow> history \<Rightarrow> history \<Rightarrow> bool" where
  "emits A h h' = (take (length h) h' = h \<and> list_all A (drop (length h) h'))"

text \<open>
  An image that garbage collection may remove: each of its name tags begins with the
  local prefix, and its blueprint label is not on the keep-list.
\<close>

definition removable :: "Config \<Rightarrow> ImageSummary \<Rightarrow> bool" where
  "removable cfg img =
     ((\<forall>rt\<in>set (RepoTags img). HasPrefix rt ''localhost/complement'')
      \<and> lookupLabel (Labels img) ''complement_blueprint'' \<notin> set (KeepBlueprints cfg))"

text \<open>
  An event that garbage collection may add once it has enumerated \<open>images\<close>: a forced
  removal only of a removable image among them, a line on the log only when debug
  logging is on.
\<close>

definition gcEvent :: "Config \<Rightarrow> ImageSummary list \<Rightarrow> event \<Rightarrow> bool" where
  "gcEvent cfg images e =
     (case e of
        CallImageRemove i f \<Rightarrow> f \<and> (\<exists>img\<in>set images. imgID img = i \<and> removable cfg img)
      | LogPrintf m \<Rightarrow> DebugLoggingEnabled cfg
      | _ \<Rightarrow> True)"

text \<open>The calls in a list of events: everything but the lines on the log.\<close>

definition calls :: "history \<Rightarrow> history" where
  "calls h = filter (\<lambda>e. \<not> is_LogPrintf e \<and> \<not> is_LogWrite e) h"

text \<open>What the three list calls of \<open>Cleanup\<close> answer; nothing when the call fails.\<close>

definition nsFilter :: "Config \<Rightarrow> string list" where
  "nsFilter cfg = label [complementLabel, ''complement_pkg='' @ PackageNamespace cfg]"


definition listedImages :: "Env \<Rightarrow> Config \<Rightarrow> history \<Rightarrow> ImageSummary list" where
  "listedImages env cfg h =
     (case ImageList env h (nsFilter cfg) of Inl e \<Rightarrow> [] | Inr images \<Rightarrow> images)"


text \<open>
  The first step of \<open>construct\<close>: the network of the blueprint, and the history when
  the first homeserver is about to be constructed.
\<close>

definition provision :: "Env \<Rightarrow> Config \<Rightarrow> Blueprint \<Rightarrow> history \<Rightarrow> (err + string) \<times> history" where
  "provision env cfg bprint h =
     createNetworkIfNotExists env (PackageNamespace cfg) (bpName bprint)
       (dlog cfg (LogConstructing (bpName bprint)) h)"

text \<open>
  Constructing homeservers one after the other, whatever the outcome: the results in
  order, and the history left. The statements use it to say that the homeservers before
  some index were constructed without error.
\<close>

fun constructAll ::
  "Env \<Rightarrow> Config \<Rightarrow> string \<Rightarrow> string \<Rightarrow> Homeserver list \<Rightarrow> history \<Rightarrow> result list \<times> history" where
  "constructAll env cfg blueprintName networkName [] h = ([], h)"
| "constructAll env cfg blueprintName networkName (hs # rest) h =
     (let (res, h1) = constructHomeserver env cfg blueprintName hs networkName h;
          (rs, h2) = constructAll env cfg blueprintName networkName rest h1
      in (res # rs, h2))"

text \<open>What the first loop does when a homeserver fails: logs, removal, \<open>return\<close>.\<close>

definition giveUp :: "Env \<Rightarrow> Config \<Rightarrow> result \<Rightarrow> history \<Rightarrow> history" where
  "giveUp env cfg res h1 =
     (let h2 = (if res_containerID res \<noteq> []
                  then printLogs env (res_containerID res) (res_contextStr res) h1
                else h1);
          h3 = h2 @ [CallContainerRemove (res_containerID res) True]
      in case ContainerRemove env h2 (res_containerID res) True of
           Some de \<Rightarrow> dlog cfg (LogFailedRemoveContainer (res_contextStr res) de) h3
         | None \<Rightarrow> h3)"

text \<open>
  The calls of a history that concern homeservers and their containers, in order and by
  the name of the homeserver or the identifier of the container.
\<close>

datatype ccall =
    is_Deployed: Deployed string
  | is_Ran: Ran string
  | is_LogsOf: LogsOf string
  | is_Removed: Removed string bool
  | is_Stopped: Stopped string int
  | is_Committed: Committed string
  | is_Inspected: Inspected string
  | is_Killed: Killed string string

fun ccallOf :: "event \<Rightarrow> ccall list" where
  "ccallOf (CallDeployImage a) = [Deployed (daHSName a)]"
| "ccallOf (CallRunnerRun hs u) = [Ran (Name hs)]"
| "ccallOf (CallContainerLogs c) = [LogsOf c]"
| "ccallOf (CallContainerRemove c f) = [Removed c f]"
| "ccallOf (CallContainerStop c t) = [Stopped c t]"
| "ccallOf (CallContainerCommit c opts) = [Committed c]"
| "ccallOf (CallContainerInspect c) = [Inspected c]"
| "ccallOf (CallContainerKill c s) = [Killed c s]"
| "ccallOf e = []"

definition ccalls :: "history \<Rightarrow> ccall list" where
  "ccalls h = concat (map ccallOf h)"

text \<open>
  The errors of the commit calls among the events \<open>es\<close> that follow the history \<open>pre\<close>:
  for each commit call that the environment answers with an error, in order, the error
  that \<open>construct\<close> makes of it (the context string is the reference without its
  prefix \<open>localhost/complement:\<close>).
\<close>

fun commitFailures :: "Env \<Rightarrow> history \<Rightarrow> history \<Rightarrow> err list" where
  "commitFailures env pre [] = []"
| "commitFailures env pre (e # es) =
     (case e of
        CallContainerCommit c opts \<Rightarrow>
          (case ContainerCommit env pre c opts of
             Inl x \<Rightarrow> [ErrContainerCommit (drop (length ''localhost/complement:'') (Reference opts)) x]
           | Inr i \<Rightarrow> [])
      | _ \<Rightarrow> [])
     @ commitFailures env (pre @ [e]) es"

text \<open>
  No removal after a failed one: \<open>stopsAtFailure env pre es\<close> says of the events \<open>es\<close>
  that follow the history \<open>pre\<close> that, whenever the environment answers a removal call
  among them with an error, no later event of \<open>es\<close> is a removal call of the same kind
  (container, image or network).
\<close>

definition removalFailed :: "Env \<Rightarrow> history \<Rightarrow> event \<Rightarrow> bool" where
  "removalFailed env pre e =
     (case e of
        CallContainerRemove c f \<Rightarrow> ContainerRemove env pre c f \<noteq> None
      | CallImageRemove i f \<Rightarrow> ImageRemove env pre i f \<noteq> None
      | CallNetworkRemove n \<Rightarrow> NetworkRemove env pre n \<noteq> None
      | _ \<Rightarrow> False)"

definition sameRemoval :: "event \<Rightarrow> event \<Rightarrow> bool" where
  "sameRemoval e e' =
     ((is_CallContainerRemove e \<and> is_CallContainerRemove e')
      \<or> (is_CallImageRemove e \<and> is_CallImageRemove e')
      \<or> (is_CallNetworkRemove e \<and> is_CallNetworkRemove e'))"

fun stopsAtFailure :: "Env \<Rightarrow> history \<Rightarrow> history \<Rightarrow> bool" where
  "stopsAtFailure env pre [] = True"
| "stopsAtFailure env pre (e # es) =
     ((removalFailed env pre e \<longrightarrow> \<not> list_ex (sameRemoval e) es)
      \<and> stopsAtFailure env (pre @ [e]) es)"

text \<open>
  The options of the commit call for the result \<open>r\<close> when its labels are collected at
  the history \<open>h'\<close>; one line of \<open>Changes\<close>; and the allow-list policy in the words of
  the specification: with a non-empty allow-list only listed users keep their token,
  with an empty one every user does.
\<close>

definition commitOptionsOf :: "Env \<Rightarrow> Blueprint \<Rightarrow> result \<Rightarrow> history \<Rightarrow> CommitOptions" where
  "commitOptionsOf env bprint r h' =
     \<lparr>Author = ''Complement'', Pause = True,
      Reference = ''localhost/complement:'' @ res_contextStr r,
      Changes = toChanges (commitLabels env bprint r h'), ConfigGiven = True\<rparr>"

definition labelLine :: "string \<Rightarrow> string \<Rightarrow> string" where
  "labelLine k v = ''LABEL '' @ [CHR 0x22] @ k @ [CHR 0x22] @ ''='' @ [CHR 0x22] @ v @ [CHR 0x22]"

definition keptToken :: "string list \<Rightarrow> gomap \<Rightarrow> string \<Rightarrow> string option" where
  "keptToken keepUsers accessTokens u =
     (if keepUsers \<noteq> [] \<and> u \<notin> set keepUsers then None else map_of accessTokens u)"

text \<open>The label filters of the cache lookup and of the polling loop.\<close>

definition cacheFilter :: "Config \<Rightarrow> Blueprint \<Rightarrow> string list" where
  "cacheFilter cfg bprint =
     label [''complement_blueprint='' @ bpName bprint, ''complement_pkg='' @ PackageNamespace cfg]"

definition pollFilter :: "Config \<Rightarrow> Blueprint \<Rightarrow> string list" where
  "pollFilter cfg bprint =
     label [complementLabel, ''complement_blueprint='' @ bpName bprint,
            ''complement_pkg='' @ PackageNamespace cfg]"

text \<open>The events of \<open>j\<close> rounds of the polling loop that found too few images.\<close>

definition pollEvents :: "Config \<Rightarrow> Blueprint \<Rightarrow> nat \<Rightarrow> history" where
  "pollEvents cfg bprint j =
     concat (replicate j [CallImageList (pollFilter cfg bprint), CallSleep (100 * Millisecond)])"



text \<open>How \<open>ConstructBlueprintIfNotExist\<close> wraps what \<open>ConstructBlueprint\<close> returns.\<close>

definition wrapConstruct ::
  "string \<Rightarrow> (err option \<times> history) option \<Rightarrow> (err option \<times> history) option" where
  "wrapConstruct n r =
     (case r of
        None \<Rightarrow> None
      | Some (Some e, h2) \<Rightarrow> Some (Some (ErrIfNotExistConstruct n e), h2)
      | Some (None, h2) \<Rightarrow> Some (None, h2))"

section \<open>Environments for the examples\<close>

text \<open>The clock of the examples: time passes while the builder sleeps.\<close>

definition sleptFor :: "history \<Rightarrow> int" where
  "sleptFor h = sum_list (map (\<lambda>e. case e of CallSleep d \<Rightarrow> max 0 d | _ \<Rightarrow> 0) h)"

text \<open>
  A daemon with nothing in it, on which every call succeeds; a deployed homeserver
  \<open>hs\<close> runs in container \<open>ctr_hs\<close>.
\<close>

definition idleEnv :: Env where
  "idleEnv =
     \<lparr>NetworkList = (\<lambda>h fs. Inr []),
      NetworkRemove = (\<lambda>h i. None),
      NetworkCreate = (\<lambda>h n ls. Inr \<lparr>crID = ''net1'', Warning = []\<rparr>),
      ImageList = (\<lambda>h fs. Inr []),
      ImageRemove = (\<lambda>h i f. None),
      ContainerList = (\<lambda>h a fs. Inr []),
      ContainerRemove = (\<lambda>h i f. None),
      ContainerInspect = (\<lambda>h i. Inr False),
      ContainerKill = (\<lambda>h i s. None),
      ContainerStop = (\<lambda>h i t. None),
      ContainerCommit = (\<lambda>h i opts. Inr (''sha256:'' @ i)),
      ContainerLogs = (\<lambda>h i. Inr ''log''),
      deployImage = (\<lambda>h a. DeployOk \<lparr>BaseURL = ''http://'' @ daHSName a,
                                       ContainerID = ''ctr_'' @ daHSName a\<rparr>),
      runnerRun = (\<lambda>h hs u. None),
      AccessTokens = (\<lambda>h n. []),
      DeviceIDs = (\<lambda>h n. []),
      labelsForApplicationServices = (\<lambda>hs. []),
      asIDToRegistrationFromLabels = (\<lambda>m. []),
      Now = sleptFor\<rparr>"

definition quietCfg :: Config where
  "quietCfg = \<lparr>PackageNamespace = ''ns'', DebugLoggingEnabled = False, KeepBlueprints = [''keepme''],
               cfgBaseImageURI = ''base'', BaseImageURIs = [], BestEffort = False\<rparr>"

definition debugCfg :: Config where
  "debugCfg = quietCfg\<lparr>DebugLoggingEnabled := True\<rparr>"

text \<open>Three images: a local one, one that also has a foreign tag, one that is kept.\<close>

definition gcImages :: "ImageSummary list" where
  "gcImages =
     [\<lparr>imgID = ''img_local'', RepoTags = [''localhost/complement:ns.bp.hs1''],
       Labels = [(''complement_blueprint'', ''bp'')]\<rparr>,
      \<lparr>imgID = ''img_foreign'', RepoTags = [''localhost/complement:ns.bp.hs2'', ''docker.io/hs:latest''],
       Labels = [(''complement_blueprint'', ''bp'')]\<rparr>,
      \<lparr>imgID = ''img_kept'', RepoTags = [''localhost/complement:ns.keepme.hs1''],
       Labels = [(''complement_blueprint'', ''keepme'')]\<rparr>]"

definition gcEnv :: Env where
  "gcEnv = idleEnv\<lparr>ImageList := (\<lambda>h fs. Inr gcImages)\<rparr>"

text \<open>Two containers; the removal of the first one fails.\<close>

definition stuckEnv :: Env where
  "stuckEnv = idleEnv
     \<lparr>ContainerList := (\<lambda>h a fs. Inr [\<lparr>ctrID = ''c1''\<rparr>, \<lparr>ctrID = ''c2''\<rparr>]),
      ContainerRemove := (\<lambda>h i f. if i = ''c1'' then Some (ClientErr ''busy'') else None)\<rparr>"

text \<open>A runner that has captured the tokens of two users of homeserver \<open>hs1\<close>.\<close>

definition tokenEnv :: Env where
  "tokenEnv = idleEnv
     \<lparr>AccessTokens := (\<lambda>h n. if n = ''hs1'' then [(''@alice:x'', ''tokA''), (''@bob:x'', ''tokB'')]
                              else []),
      DeviceIDs := (\<lambda>h n. if n = ''hs1'' then [(''@alice:x'', ''devA'')] else [])\<rparr>"

definition hs1 :: Homeserver where
  "hs1 = \<lparr>Name = ''hs1'', BaseImageURI = None, ApplicationServices = []\<rparr>"

definition hs2 :: Homeserver where
  "hs2 = \<lparr>Name = ''hs2'', BaseImageURI = None, ApplicationServices = []\<rparr>"

definition res1 :: result where
  "res1 = \<lparr>res_err = None, res_containerID = ''ctr_hs1'', res_contextStr = ''ns.bp.hs1'',
            res_homeserver = hs1\<rparr>"

definition res2 :: result where
  "res2 = \<lparr>res_err = None, res_containerID = ''ctr_hs2'', res_contextStr = ''ns.bp.hs2'',
            res_homeserver = hs2\<rparr>"

definition bpOne :: Blueprint where
  "bpOne = \<lparr>bpName = ''bp'', Homeservers = [hs1], KeepAccessTokensForUsers = [''@alice:x'']\<rparr>"

definition bpTwo :: Blueprint where
  "bpTwo = \<lparr>bpName = ''bp'', Homeservers = [hs1, hs2], KeepAccessTokensForUsers = []\<rparr>"

definition bpNone :: Blueprint where
  "bpNone = \<lparr>bpName = ''bp'', Homeservers = [], KeepAccessTokensForUsers = []\<rparr>"


text \<open>A daemon that cannot stop containers, and one that cannot inspect them.\<close>

definition stopFailEnv :: Env where
  "stopFailEnv = idleEnv\<lparr>ContainerStop := (\<lambda>h i t. Some (ClientErr ''cannot stop''))\<rparr>"


text \<open>A daemon on which the commit of \<open>ctr_hs1\<close> fails.\<close>

definition commitFailEnv :: Env where
  "commitFailEnv = idleEnv
     \<lparr>ContainerCommit := (\<lambda>h i opts. if i = ''ctr_hs1'' then Inl (ClientErr ''no space'')
                                      else Inr (''sha256:'' @ i))\<rparr>"

text \<open>The histories of the examples.\<close>

definition netEvents :: history where
  "netEvents =
     [CallNetworkList [''complement_pkg=ns'', ''complement_blueprint=bp''],
      CallNetworkCreate ''complement_ns_bp''
        [(''complement_context'', ''bp''), (''complement_blueprint'', ''bp''),
         (''complement_pkg'', ''ns'')]]"

definition deployArgs :: "string \<Rightarrow> DeployArgs" where
  "deployArgs n =
     \<lparr>daImageURI = ''base'', daContainerName = ''complement_ns.bp.'' @ n, daPkgNamespace = ''ns'',
      daBlueprintName = ''bp'', daHSName = n, daAsIDToRegistrationMap = [],
      daContextStr = ''ns.bp.'' @ n, daNetworkName = ''complement_ns_bp''\<rparr>"

definition commitOpts :: "string \<Rightarrow> string list \<Rightarrow> CommitOptions" where
  "commitOpts n changes =
     \<lparr>Author = ''Complement'', Pause = True, Reference = ''localhost/complement:ns.bp.'' @ n,
      Changes = changes, ConfigGiven = True\<rparr>"

text \<open>A daemon that lists the images committed so far, whatever the filter.\<close>

definition committedImages :: "history \<Rightarrow> ImageSummary list" where
  "committedImages h =
     concat (map (\<lambda>e. case e of
                        CallContainerCommit c opts \<Rightarrow>
                          [\<lparr>imgID = ''sha256:'' @ c, RepoTags = [Reference opts], Labels = []\<rparr>]
                      | _ \<Rightarrow> []) h)"

definition cacheEnv :: Env where
  "cacheEnv = idleEnv\<lparr>ImageList := (\<lambda>h fs. Inr (committedImages h))\<rparr>"

text \<open>A daemon whose image listing fails.\<close>

definition listFailEnv :: Env where
  "listFailEnv = idleEnv\<lparr>ImageList := (\<lambda>h fs. Inl (ClientErr ''daemon down''))\<rparr>"

text \<open>
  A daemon with one image that carries the blueprint and namespace labels but not the
  ownership label: it answers a filter that asks for \<open>complement_context\<close> with nothing.
\<close>

definition strayEnv :: Env where
  "strayEnv = idleEnv
     \<lparr>ImageList := (\<lambda>h fs. if ''complement_context'' \<in> set fs then Inr []
                            else Inr [\<lparr>imgID = ''stray'', RepoTags = [''example.org/hs:latest''],
                                       Labels = [(''complement_blueprint'', ''bp''),
                                                 (''complement_pkg'', ''ns'')]\<rparr>])\<rparr>"

section \<open>Properties\<close>

subsection \<open>Histories\<close>

lemma emits_iff: "emits A h h' = (\<exists>evs. h' = h @ evs \<and> list_all A evs)"
  unfolding emits_def by (metis append_eq_conv_conj)

lemma emits_app: "emits A h (h @ evs) = list_all A evs"
  by (simp add: emits_iff)

lemma emits_refl [simp]: "emits A h h"
  by (simp add: emits_iff)

lemma emits_trans: "emits A h h1 \<Longrightarrow> emits A h1 h2 \<Longrightarrow> emits A h h2"
  by (auto simp: emits_iff)

lemma emits_snoc: "emits A h h1 \<Longrightarrow> A e \<Longrightarrow> emits A h (h1 @ [e])"
  by (auto simp: emits_iff)

lemma emits_mono: "emits A h h' \<Longrightarrow> (\<And>e. A e \<Longrightarrow> B e) \<Longrightarrow> emits B h h'"
  by (auto simp: emits_iff list_all_iff)

lemma emits_dlog:
  "emits A h h1 \<Longrightarrow> (DebugLoggingEnabled cfg \<Longrightarrow> A (LogPrintf m)) \<Longrightarrow> emits A h (dlog cfg m h1)"
  by (simp add: dlog_def emits_snoc)

lemma emits_filter: "emits A h h' \<Longrightarrow> (\<And>e. A e \<Longrightarrow> \<not> P e) \<Longrightarrow> filter P h' = filter P h"
  by (auto simp: emits_iff list_all_iff filter_empty_conv)

lemma emits_drop: "emits A h h' \<Longrightarrow> e \<in> set (drop (length h) h') \<Longrightarrow> A e"
  by (auto simp: emits_def list_all_iff)


lemma calls_append [simp]: "calls (a @ b) = calls a @ calls b"
  by (simp add: calls_def)

lemma calls_Nil [simp]: "calls [] = []"
  by (simp add: calls_def)

lemma calls_dlog [simp]: "calls (dlog cfg m h) = calls h"
  by (simp add: dlog_def calls_def)

lemma calls_Cons [simp]:
  "calls (e # es) = (if is_LogPrintf e \<or> is_LogWrite e then calls es else e # calls es)"
  by (simp add: calls_def)


subsection \<open>Port resolution\<close>

lemma findPortBindingLoop_find:
  "findPortBindingLoop ip pbs =
     map_option (\<lambda>pb. \<lparr>HostIP = ip, HostPort = HostPort pb\<rparr>) (find (bindingAccepted ip) pbs)"
  by (induction pbs) (auto simp: bindingAccepted_def)

lemma sprint_d_80: "sprint_d 80 = ''80''"
  by (simp add: sprint_d_def digits.simps)

text \<open>
  C5. The claim orders the three rules over the whole list of bindings: an exact match
  anywhere first, then an all-interfaces binding, then an empty address. The loop tries
  the three rules on one binding before it looks at the next, so an all-interfaces
  binding listed before an exact match wins: here the answer carries port 8080 of the
  \<open>0.0.0.0\<close> binding, not port 9090 of the binding that matches \<open>127.0.0.1\<close> exactly.
\<close>

theorem findPortBinding_rule_order_counterexample:
  "findPortBinding
     [''80/tcp'' \<mapsto> [\<lparr>HostIP = ''0.0.0.0'', HostPort = ''8080''\<rparr>,
                      \<lparr>HostIP = ''127.0.0.1'', HostPort = ''9090''\<rparr>]] ''127.0.0.1'' 80
     = Inr \<lparr>HostIP = ''127.0.0.1'', HostPort = ''8080''\<rparr>
   \<and> findPortBinding
     [''80/tcp'' \<mapsto> [\<lparr>HostIP = ''0.0.0.0'', HostPort = ''8080''\<rparr>,
                      \<lparr>HostIP = ''127.0.0.1'', HostPort = ''9090''\<rparr>]] ''127.0.0.1'' 80
     \<noteq> Inr \<lparr>HostIP = ''127.0.0.1'', HostPort = ''9090''\<rparr>"
  by (simp add: findPortBinding_def sprint_d_80)

text \<open>
  C5, amended. Port resolution fails when the port is not in the map or has no
  bindings. Otherwise it takes the first binding, in the order of the list, whose host
  address equals the bind IP, or is \<open>0.0.0.0\<close>, or is empty while the bind IP is
  \<open>127.0.0.1\<close>, and returns that binding's host port with the bind IP as address (for an
  exact match this is the binding itself). When no binding passes the test it fails;
  it never returns a default.
\<close>

theorem findPortBinding_first_accepted:
  "findPortBinding p ip port =
     (case p (sprint_d port @ ''/tcp'') of
        None \<Rightarrow> Inl (ErrPortNotExposed (sprint_d port @ ''/tcp''))
      | Some pbs \<Rightarrow>
          if pbs = [] then Inl (ErrPortNotMapped (sprint_d port @ ''/tcp''))
          else (case find (bindingAccepted ip) pbs of
                  None \<Rightarrow> Inl (ErrNoMatchingBinding ip (sprint_d port @ ''/tcp''))
                | Some pb \<Rightarrow> Inr \<lparr>HostIP = ip, HostPort = HostPort pb\<rparr>))"
  by (simp add: findPortBinding_def findPortBindingLoop_find split: option.splits)

theorem findPortBinding_first_accepted_witness:
  "findPortBinding [''80/tcp'' \<mapsto> [\<lparr>HostIP = ''0.0.0.0'', HostPort = ''8080''\<rparr>]] ''127.0.0.1'' 80
     = Inr \<lparr>HostIP = ''127.0.0.1'', HostPort = ''8080''\<rparr>"
  by (subst findPortBinding_first_accepted) (simp add: sprint_d_80 bindingAccepted_def)

subsection \<open>Garbage collection\<close>

lemma isLocalhost_iff: "isLocalhost tags = (\<forall>rt\<in>set tags. HasPrefix rt ''localhost/complement'')"
  by (induction tags) auto

lemma keepLoop_iff: "keepLoop b ks = (b \<in> set ks)"
  by (induction ks) auto

lemma removeImagesLoop_emits:
  "set imgs \<subseteq> set images \<Longrightarrow> emits (gcEvent cfg images) h (snd (removeImagesLoop env cfg imgs h))"
proof (induction imgs arbitrary: h)
  case Nil
  then show ?case by simp
next
  case (Cons img imgs)
  have step: "\<And>h1. emits (gcEvent cfg images) h h1 \<Longrightarrow>
      emits (gcEvent cfg images) h (snd (removeImagesLoop env cfg imgs h1))"
    using Cons by (auto intro: emits_trans)
  have lg: "\<And>m. emits (gcEvent cfg images) h (dlog cfg m h)"
    by (rule emits_dlog) (simp_all add: gcEvent_def)
  show ?case
  proof (cases "isLocalhost (RepoTags img) \<and> \<not> keepLoop (lookupLabel (Labels img) ''complement_blueprint'') (KeepBlueprints cfg)")
    case False
    then show ?thesis using step lg by (auto simp: Let_def)
  next
    case True
    then have rm: "gcEvent cfg images (CallImageRemove (imgID img) True)"
      using Cons.prems by (auto simp: gcEvent_def removable_def isLocalhost_iff keepLoop_iff)
    then have e1: "emits (gcEvent cfg images) h (h @ [CallImageRemove (imgID img) True])"
      by (simp add: emits_snoc)
    show ?thesis using True step[OF e1] e1 by (simp add: Let_def split: option.splits)
  qed
qed

lemma cleanupImages_emits_aux:
  "emits (gcEvent cfg (case ImageList env h (label [complementLabel, ''complement_pkg='' @ PackageNamespace cfg]) of Inl e \<Rightarrow> [] | Inr images \<Rightarrow> images))
     h (cleanupImages env cfg h)"
proof -
  let ?fs = "label [complementLabel, ''complement_pkg='' @ PackageNamespace cfg]"
  let ?A = "gcEvent cfg (case ImageList env h ?fs of Inl e \<Rightarrow> [] | Inr images \<Rightarrow> images)"
  have "emits ?A h (snd (removeImages env cfg h))"
  proof (cases "ImageList env h ?fs")
    case (Inl e)
    then show ?thesis by (simp add: removeImages_def emits_snoc gcEvent_def)
  next
    case (Inr images)
    have "emits (gcEvent cfg images) h (h @ [CallImageList ?fs])"
      by (simp add: emits_snoc gcEvent_def)
    moreover have "emits (gcEvent cfg images) (h @ [CallImageList ?fs])
         (snd (removeImagesLoop env cfg images (h @ [CallImageList ?fs])))"
      by (rule removeImagesLoop_emits) simp
    ultimately show ?thesis using Inr by (simp add: removeImages_def) (rule emits_trans)
  qed
  then show ?thesis
    by (auto simp: cleanupImages_def split: prod.splits option.splits
        intro!: emits_dlog simp: gcEvent_def)
qed

lemma cleanupImages_emits:
  "emits (gcEvent cfg (listedImages env cfg h)) h (cleanupImages env cfg h)"
  using cleanupImages_emits_aux[of cfg env h] by (simp add: listedImages_def nsFilter_def)

lemma removeContainersLoop_emits:
  "emits is_CallContainerRemove h (snd (removeContainersLoop env cs h))"
proof (induction cs arbitrary: h)
  case Nil
  then show ?case by simp
next
  case (Cons c cs)
  have e1: "emits is_CallContainerRemove h (h @ [CallContainerRemove (ctrID c) True])"
    by (simp add: emits_snoc)
  show ?case using e1 emits_trans[OF e1 Cons] by (simp split: option.splits)
qed

lemma removeNetworksLoop_emits:
  "emits is_CallNetworkRemove h (snd (removeNetworksLoop env nws h))"
proof (induction nws arbitrary: h)
  case Nil
  then show ?case by simp
next
  case (Cons c cs)
  have e1: "emits is_CallNetworkRemove h (h @ [CallNetworkRemove (nwID c)])"
    by (simp add: emits_snoc)
  show ?case using e1 emits_trans[OF e1 Cons] by (simp split: option.splits)
qed

lemma removeContainers_emits:
  "emits (\<lambda>e. is_CallContainerList e \<or> is_CallContainerRemove e) h (snd (removeContainers env cfg h))"
proof -
  let ?A = "\<lambda>e. is_CallContainerList e \<or> is_CallContainerRemove e"
  have a: "\<And>fs. emits ?A h (h @ [CallContainerList True fs])" by (simp add: emits_snoc)
  have b: "\<And>h1 cs. emits ?A h1 (snd (removeContainersLoop env cs h1))"
    by (rule emits_mono[OF removeContainersLoop_emits]) simp
  show ?thesis using a emits_trans[OF a b]
    by (simp add: removeContainers_def Let_def split: sum.splits)
qed

lemma removeNetworks_emits:
  "emits (\<lambda>e. is_CallNetworkList e \<or> is_CallNetworkRemove e) h (snd (removeNetworks env cfg h))"
proof -
  let ?A = "\<lambda>e. is_CallNetworkList e \<or> is_CallNetworkRemove e"
  have a: "\<And>fs. emits ?A h (h @ [CallNetworkList fs])" by (simp add: emits_snoc)
  have b: "\<And>h1 cs. emits ?A h1 (snd (removeNetworksLoop env cs h1))"
    by (rule emits_mono[OF removeNetworksLoop_emits]) simp
  show ?thesis using a emits_trans[OF a b]
    by (simp add: removeNetworks_def Let_def split: sum.splits)
qed

lemma cleanupContainers_emits:
  "emits (\<lambda>e. is_CallContainerList e \<or> is_CallContainerRemove e \<or> (is_LogPrintf e \<and> DebugLoggingEnabled cfg)) h
     (cleanupContainers env cfg h)"
proof -
  have "emits (\<lambda>e. is_CallContainerList e \<or> is_CallContainerRemove e \<or> (is_LogPrintf e \<and> DebugLoggingEnabled cfg)) h
          (snd (removeContainers env cfg h))"
    by (rule emits_mono[OF removeContainers_emits]) auto
  then show ?thesis
    by (auto simp: cleanupContainers_def split: prod.splits option.splits intro!: emits_dlog)
qed

lemma cleanupNetworks_emits:
  "emits (\<lambda>e. is_CallNetworkList e \<or> is_CallNetworkRemove e \<or> (is_LogPrintf e \<and> DebugLoggingEnabled cfg)) h
     (cleanupNetworks env cfg h)"
proof -
  have "emits (\<lambda>e. is_CallNetworkList e \<or> is_CallNetworkRemove e \<or> (is_LogPrintf e \<and> DebugLoggingEnabled cfg)) h
          (snd (removeNetworks env cfg h))"
    by (rule emits_mono[OF removeNetworks_emits]) auto
  then show ?thesis
    by (auto simp: cleanupNetworks_def split: prod.splits option.splits intro!: emits_dlog)
qed

lemma Cleanup_emits:
  "emits (gcEvent cfg (listedImages env cfg (cleanupContainers env cfg h))) h (Cleanup env cfg h)"
proof -
  let ?h2 = "cleanupContainers env cfg h"
  let ?h4 = "cleanupImages env cfg ?h2"
  let ?A = "gcEvent cfg (listedImages env cfg ?h2)"
  have 1: "emits ?A h ?h2"
    by (rule emits_mono[OF cleanupContainers_emits]) (auto simp: gcEvent_def split: event.splits)
  have 2: "emits ?A ?h2 ?h4" by (rule cleanupImages_emits)
  have 3: "emits ?A ?h4 (cleanupNetworks env cfg ?h4)"
    by (rule emits_mono[OF cleanupNetworks_emits]) (auto simp: gcEvent_def split: event.splits)
  show ?thesis
    unfolding Cleanup_def by (rule emits_trans[OF emits_trans[OF 1 2] 3])
qed

text \<open>
  C3. Every image removal that \<open>Cleanup\<close> issues is a forced removal of an image that the
  image listing of this run enumerated, all of whose name tags begin with
  \<open>localhost/complement\<close> and whose blueprint label is not on the keep-list. So an image
  with a foreign tag, and an image of a kept blueprint, are never removed.
\<close>

theorem Cleanup_removes_only_removable_images:
  assumes "CallImageRemove i f \<in> set (drop (length h) (Cleanup env cfg h))"
  shows "f \<and> (\<exists>img\<in>set (listedImages env cfg (cleanupContainers env cfg h)). imgID img = i
                \<and> (\<forall>rt\<in>set (RepoTags img). HasPrefix rt ''localhost/complement'')
                \<and> lookupLabel (Labels img) ''complement_blueprint'' \<notin> set (KeepBlueprints cfg))"
  using emits_drop[OF Cleanup_emits assms] by (simp add: gcEvent_def removable_def)

lemma gc_run: "Cleanup gcEnv quietCfg [] =
   [CallContainerList True [''complement_context'', ''complement_pkg=ns''],
    CallImageList [''complement_context'', ''complement_pkg=ns''],
    CallImageRemove ''img_local'' True,
    CallNetworkList [''complement_context'', ''complement_pkg=ns'']]"
  by (simp add: Cleanup_def cleanupContainers_def cleanupImages_def cleanupNetworks_def
      removeContainers_def removeImages_def removeNetworks_def label_def complementLabel_def
      gcEnv_def idleEnv_def quietCfg_def gcImages_def dlog_def HasPrefix_def lookupLabel_def)

lemma gc_listed: "listedImages gcEnv quietCfg h = gcImages"
  by (simp add: listedImages_def gcEnv_def idleEnv_def)

theorem Cleanup_removes_only_removable_images_witness:
  "CallImageRemove ''img_local'' True \<in> set (drop (length ([]::history)) (Cleanup gcEnv quietCfg []))
   \<and> (\<exists>img\<in>set gcImages. imgID img = ''img_local''
         \<and> (\<forall>rt\<in>set (RepoTags img). HasPrefix rt ''localhost/complement'')
         \<and> lookupLabel (Labels img) ''complement_blueprint'' \<notin> set (KeepBlueprints quietCfg))"
proof -
  have h: "CallImageRemove ''img_local'' True
             \<in> set (drop (length ([]::history)) (Cleanup gcEnv quietCfg []))"
    by (simp add: gc_run)
  from Cleanup_removes_only_removable_images[OF h] h show ?thesis
    by (simp add: gc_listed)
qed







lemma calls_map_rmC [simp]:
  "calls (map (\<lambda>c. CallContainerRemove (ctrID c) True) cs) = map (\<lambda>c. CallContainerRemove (ctrID c) True) cs"
  by (induction cs) (simp_all add: calls_def)

lemma calls_map_rmN [simp]:
  "calls (map (\<lambda>c. CallNetworkRemove (nwID c)) cs) = map (\<lambda>c. CallNetworkRemove (nwID c)) cs"
  by (induction cs) (simp_all add: calls_def)














subsection \<open>A pass stops at its first failed removal\<close>















lemma stopsAtFailure_rejects_going_on:
  "\<not> stopsAtFailure stuckEnv []
       [CallContainerList True [''complement_context'', ''complement_pkg=ns''],
        CallContainerRemove ''c1'' True, CallContainerRemove ''c2'' True]"
  by (simp add: removalFailed_def sameRemoval_def stuckEnv_def idleEnv_def)

subsection \<open>Labels of a committed image\<close>

lemma map_of_keepListed:
  "map_of (keepListed toks users labels) k =
     (if \<exists>u\<in>set users. k = ''access_token_'' @ u \<and> map_of toks u \<noteq> None
      then map_of toks (drop (length ''access_token_'') k)
      else map_of labels k)"
proof (induction users arbitrary: labels)
  case Nil
  then show ?case by simp
next
  case (Cons u users)
  show ?case
  proof (cases "map_of toks u")
    case None
    then show ?thesis using Cons[of labels] by auto
  next
    case (Some tok)
    then show ?thesis using Cons[of "AList.update (''access_token_'' @ u) tok labels"]
      by (auto simp: update_conv')
  qed
qed

lemma map_of_addLabels_other:
  "k \<notin> (\<lambda>x. pre @ x) ` fst ` set m \<Longrightarrow> map_of (addLabels pre m labels) k = map_of labels k"
  by (induction pre m labels rule: addLabels.induct) (auto simp: update_conv')

lemma map_of_addLabels:
  "distinct (map fst m) \<Longrightarrow>
   map_of (addLabels pre m labels) (pre @ k) =
     (case map_of m k of Some v \<Rightarrow> Some v | None \<Rightarrow> map_of labels (pre @ k))"
proof (induction pre m labels rule: addLabels.induct)
  case (1 pre labels)
  then show ?case by simp
next
  case (2 pre k' v rest labels)
  show ?case
  proof (cases "k = k'")
    case True
    then have "pre @ k \<notin> (\<lambda>x. pre @ x) ` fst ` set rest" using 2(2) by auto
    from map_of_addLabels_other[OF this] True show ?thesis by (simp add: update_conv')
  next
    case False
    then show ?thesis using 2 by (simp add: update_conv' split: option.splits)
  qed
qed

lemma map_of_tokenLabels:
  "keepUsers \<noteq> [] \<or> distinct (map fst toks) \<Longrightarrow>
   map_of (tokenLabels keepUsers toks) (''access_token_'' @ u) =
     (if keepUsers \<noteq> [] \<and> u \<notin> set keepUsers then None else map_of toks u)"
proof (cases "keepUsers = []")
  case True
  assume "keepUsers \<noteq> [] \<or> distinct (map fst toks)"
  with True have d: "distinct (map fst toks)" by simp
  have "map_of (addLabels ''access_token_'' toks []) (''access_token_'' @ u) = map_of toks u"
    unfolding map_of_addLabels[OF d] by (simp split: option.splits)
  then show ?thesis using True by (simp add: tokenLabels_def)
next
  case False
  have "map_of (keepListed toks keepUsers []) (''access_token_'' @ u)
      = (if u \<in> set keepUsers then map_of toks u else None)"
    unfolding map_of_keepListed by auto
  then show ?thesis using False by (simp add: tokenLabels_def)
qed

text \<open>
  The label \<open>access_token_u\<close> among the labels collected for a constructed homeserver:
  with a non-empty allow-list it is the captured token of \<open>u\<close> when \<open>u\<close> is listed and
  absent otherwise; with an empty allow-list it is the captured token of \<open>u\<close>, whoever
  \<open>u\<close> is. The captured tokens are a Go map (no key twice), and the labels that
  \<open>labelsForApplicationServices\<close> adds afterwards, a helper that is not in builder.go,
  are taken not to use the key. The device labels cannot touch it.
\<close>

lemma commitLabels_access_tokens:
  assumes "distinct (map fst (AccessTokens env h (Name (res_homeserver res))))"
    and "''access_token_'' @ u \<notin> fst ` set (labelsForApplicationServices env (res_homeserver res))"
  shows "map_of (commitLabels env bprint res h) (''access_token_'' @ u) =
     (if KeepAccessTokensForUsers bprint \<noteq> [] \<and> u \<notin> set (KeepAccessTokensForUsers bprint)
      then None
      else map_of (AccessTokens env h (Name (res_homeserver res))) u)"
proof -
  have dev: "''access_token_'' @ u
      \<notin> (\<lambda>x. ''device_id'' @ x) ` fst ` set (DeviceIDs env h (Name (res_homeserver res)))"
    by auto
  have as: "''access_token_'' @ u
      \<notin> (\<lambda>x. [] @ x) ` fst ` set (labelsForApplicationServices env (res_homeserver res))"
    using assms(2) by simp
  show ?thesis
    unfolding commitLabels_def Let_def
    by (simp only: map_of_addLabels_other[OF as] map_of_addLabels_other[OF dev]
        map_of_tokenLabels[OF disjI2[OF assms(1)]])
qed

lemma tokenEnv_tokens:
  "AccessTokens tokenEnv h ''hs1'' = [(''@alice:x'', ''tokA''), (''@bob:x'', ''tokB'')]"
  "labelsForApplicationServices tokenEnv hs = []"
  by (simp_all add: tokenEnv_def idleEnv_def)

lemma commitLabels_example:
  "map_of (commitLabels tokenEnv bpOne res1 []) ''access_token_@alice:x'' = Some ''tokA''
   \<and> map_of (commitLabels tokenEnv bpOne res1 []) ''access_token_@bob:x'' = None
   \<and> map_of (commitLabels tokenEnv bpTwo res1 []) ''access_token_@alice:x'' = Some ''tokA''
   \<and> map_of (commitLabels tokenEnv bpTwo res1 []) ''access_token_@bob:x'' = Some ''tokB''"
proof -
  have n: "Name (res_homeserver res1) = ''hs1''" by (simp add: res1_def hs1_def)
  have d: "distinct (map fst (AccessTokens tokenEnv [] (Name (res_homeserver res1))))"
    by (simp add: n tokenEnv_tokens)
  have a: "\<And>u. ''access_token_'' @ u
      \<notin> fst ` set (labelsForApplicationServices tokenEnv (res_homeserver res1))"
    by (simp add: tokenEnv_tokens)
  show ?thesis
    using commitLabels_access_tokens[where u="''@alice:x''" and bprint=bpOne, OF d a]
      commitLabels_access_tokens[where u="''@bob:x''" and bprint=bpOne, OF d a]
      commitLabels_access_tokens[where u="''@alice:x''" and bprint=bpTwo, OF d a]
      commitLabels_access_tokens[where u="''@bob:x''" and bprint=bpTwo, OF d a]
    by (simp add: n tokenEnv_tokens bpOne_def bpTwo_def)
qed

subsection \<open>The two loops of construct\<close>

lemma ccalls_Nil [simp]: "ccalls [] = []"
  by (simp add: ccalls_def)

lemma ccalls_append [simp]: "ccalls (a @ b) = ccalls a @ ccalls b"
  by (simp add: ccalls_def)

lemma ccalls_Cons [simp]: "ccalls (e # es) = ccallOf e @ ccalls es"
  by (simp add: ccalls_def)

lemma ccalls_dlog [simp]: "ccalls (dlog cfg m h) = ccalls h"
  by (simp add: dlog_def)

lemma ccalls_createNetwork [simp]:
  "ccalls (snd (createNetworkIfNotExists env ns bp h)) = ccalls h"
  by (simp add: createNetworkIfNotExists_def Let_def split: sum.splits)


lemma ccalls_printLogs [simp]: "ccalls (printLogs env c ctx h) = ccalls h @ [LogsOf c]"
  by (simp add: printLogs_def Let_def split: sum.splits)



lemma constructAll_Cons:
  "constructAll env cfg bp nw (hs # hss) h =
     (fst (constructHomeserver env cfg bp hs nw h)
        # fst (constructAll env cfg bp nw hss (snd (constructHomeserver env cfg bp hs nw h))),
      snd (constructAll env cfg bp nw hss (snd (constructHomeserver env cfg bp hs nw h))))"
  by (simp add: Let_def split: prod.splits)

lemma constructAll_length: "length (fst (constructAll env cfg bp nw hss h)) = length hss"
  by (induction hss arbitrary: h) (simp_all add: constructAll_Cons del: constructAll.simps(2))


text \<open>
  As long as the homeservers are constructed without error, the first loop fills
  \<open>results\<close> from index \<open>i\<close> on and pushes each result on the stack of deferred calls.
\<close>

lemma constructLoop_succeed:
  assumes "constructAll env cfg bp nw hss h = (rs, h')"
    and "\<forall>r\<in>set rs. res_err r = None"
    and "i + length hss \<le> length results"
  shows "constructLoop env cfg bp nw (hss @ rest) i results deferred errs h
       = constructLoop env cfg bp nw rest (i + length hss)
           (take i results @ rs @ drop (i + length hss) results) (rev rs @ deferred) errs h'"
  using assms
proof (induction hss arbitrary: h rs i results deferred)
  case Nil
  then show ?case by simp
next
  case (Cons hs hss)
  obtain res h1 where c: "constructHomeserver env cfg bp hs nw h = (res, h1)"
    by (cases "constructHomeserver env cfg bp hs nw h")
  obtain rs1 where a: "constructAll env cfg bp nw hss h1 = (rs1, h')" and rs: "rs = res # rs1"
    using Cons.prems(1) c
    by (cases "constructAll env cfg bp nw hss h1")
      (simp add: constructAll_Cons del: constructAll.simps(2))
  have ok: "res_err res = None" and ok1: "\<forall>r\<in>set rs1. res_err r = None"
    using Cons.prems(2) rs by simp_all
  have i: "i < length results" and len: "Suc i + length hss \<le> length (results[i := res])"
    using Cons.prems(3) by simp_all
  have step: "constructLoop env cfg bp nw ((hs # hss) @ rest) i results deferred errs h
      = constructLoop env cfg bp nw (hss @ rest) (Suc i) (results[i := res]) (res # deferred) errs h1"
    using c ok by simp
  have t: "take (Suc i) (results[i := res]) = take i results @ [res]"
    using i by (simp add: take_Suc_conv_app_nth)
  have d: "drop (Suc i + length hss) (results[i := res]) = drop (Suc i + length hss) results"
    by simp
  show ?case
    unfolding step Cons.IH[OF a ok1 len] t d rs by simp
qed

lemma constructLoop_all:
  assumes "constructAll env cfg bp nw hss h = (rs, h')"
    and "\<forall>r\<in>set rs. res_err r = None"
  shows "constructLoop env cfg bp nw hss 0 (replicate (length hss) z) [] errs h
       = ((False, rs, rev rs, errs), h')"
proof -
  have l: "length rs = length hss" using constructAll_length[of env cfg bp nw hss h] assms(1) by simp
  have "constructLoop env cfg bp nw (hss @ []) 0 (replicate (length hss) z) [] errs h
       = constructLoop env cfg bp nw [] (0 + length hss)
           (take 0 (replicate (length hss) z) @ rs @ drop (0 + length hss) (replicate (length hss) z))
           (rev rs @ []) errs h'"
    by (rule constructLoop_succeed[OF assms]) simp
  then show ?thesis by simp
qed



lemma construct_success:
  assumes "provision env cfg bprint h = (Inr nw, h1)"
    and "constructAll env cfg (bpName bprint) nw (Homeservers bprint) h1 = (rs, h2)"
    and "\<forall>r\<in>set rs. res_err r = None"
  shows "construct env cfg bprint h =
           (fst (commitLoop env cfg bprint rs [] h2),
            runDeferred env cfg (rev rs) (snd (commitLoop env cfg bprint rs [] h2)))"
  using assms(1) constructLoop_all[OF assms(2) assms(3), of zeroResult "[]"]
  by (simp add: construct_def provision_def Let_def split: prod.splits)


subsection \<open>What each step of construct adds to the history\<close>

lemma createNetwork_emits:
  "emits (\<lambda>e. is_CallNetworkList e \<or> is_CallNetworkCreate e \<or> is_LogPrintf e) h
     (snd (createNetworkIfNotExists env ns bp h))"
  by (simp add: createNetworkIfNotExists_def Let_def emits_app split: sum.splits)

lemma provision_emits:
  "emits (\<lambda>e. is_CallNetworkList e \<or> is_CallNetworkCreate e \<or> is_LogPrintf e) h
     (snd (provision env cfg bprint h))"
  unfolding provision_def
  by (rule emits_trans[OF emits_dlog[OF emits_refl] createNetwork_emits]) simp

lemma constructHomeserver_emits:
  "emits (\<lambda>e. is_CallDeployImage e \<or> is_CallRunnerRun e \<or> is_LogPrintf e) h
     (snd (constructHomeserver env cfg bp hs nw h))"
  by (simp add: constructHomeserver_def deployBaseImage_def Let_def dlog_def emits_app
      split: DeployResult.splits option.splits)

lemma constructAll_emits:
  "emits (\<lambda>e. is_CallDeployImage e \<or> is_CallRunnerRun e \<or> is_LogPrintf e) h
     (snd (constructAll env cfg bp nw hss h))"
proof (induction hss arbitrary: h)
  case Nil
  then show ?case by simp
next
  case (Cons hs hss)
  show ?case
    unfolding constructAll_Cons snd_conv
    by (rule emits_trans[OF constructHomeserver_emits Cons])
qed

lemma printLogs_emits:
  "emits (\<lambda>e. is_CallContainerLogs e \<or> is_CallContainerRemove e \<or> is_LogPrintf e \<or> is_LogWrite e) h
     (printLogs env c ctx h)"
  by (simp add: printLogs_def Let_def emits_iff split: sum.splits)

lemma giveUp_emits:
  "emits (\<lambda>e. is_CallContainerLogs e \<or> is_CallContainerRemove e \<or> is_LogPrintf e \<or> is_LogWrite e) h
     (giveUp env cfg res h)"
proof -
  let ?A = "\<lambda>e. is_CallContainerLogs e \<or> is_CallContainerRemove e \<or> is_LogPrintf e \<or> is_LogWrite e"
  let ?h2 = "if res_containerID res \<noteq> []
               then printLogs env (res_containerID res) (res_contextStr res) h else h"
  have 2: "emits ?A h ?h2" using printLogs_emits by simp
  have 3: "emits ?A h (?h2 @ [CallContainerRemove (res_containerID res) True])"
    by (rule emits_snoc[OF 2]) simp
  show ?thesis
    unfolding giveUp_def Let_def
    by (cases "ContainerRemove env ?h2 (res_containerID res) True")
      (use 3 in \<open>auto intro!: emits_dlog\<close>)
qed

lemma deferredKill_emits:
  "emits (\<lambda>e. is_CallContainerInspect e \<or> is_CallContainerKill e \<or> is_LogPrintf e) h
     (deferredKill env cfg r h)"
  by (simp add: deferredKill_def Let_def dlog_def emits_app split: sum.splits option.splits)

lemma runDeferred_emits:
  "emits (\<lambda>e. is_CallContainerInspect e \<or> is_CallContainerKill e \<or> is_LogPrintf e) h
     (runDeferred env cfg rs h)"
proof (induction rs arbitrary: h)
  case Nil
  then show ?case by simp
next
  case (Cons r rs)
  show ?case
    unfolding runDeferred.simps by (rule emits_trans[OF deferredKill_emits Cons])
qed

lemma ccalls_emits:
  "emits A h h' \<Longrightarrow> (\<And>e. A e \<Longrightarrow> list_all (\<lambda>c. \<not> P c) (ccallOf e)) \<Longrightarrow>
   filter P (ccalls h') = filter P (ccalls h)"
proof -
  assume e: "emits A h h'" and a: "\<And>e. A e \<Longrightarrow> list_all (\<lambda>c. \<not> P c) (ccallOf e)"
  from e obtain evs where h': "h' = h @ evs" and evs: "list_all A evs"
    by (auto simp: emits_iff)
  have "filter P (ccalls evs) = []"
    using evs a by (induction evs) (auto simp: filter_empty_conv list_all_iff)
  then show ?thesis by (simp add: h')
qed



lemma ccalls_commitLoop:
  "\<forall>r\<in>set rs. res_err r = None \<Longrightarrow>
   ccalls (snd (commitLoop env cfg bprint rs errs h))
     = ccalls h @ concat (map (\<lambda>r. [Stopped (res_containerID r) 10, Committed (res_containerID r)]) rs)"
proof (induction rs arbitrary: errs h)
  case Nil
  then show ?case by simp
next
  case (Cons r rs)
  then have ok: "res_err r = None" and rest: "\<forall>r\<in>set rs. res_err r = None" by simp_all
  show ?case
    using ok by (simp add: Let_def Cons.IH[OF rest] split: sum.splits)
qed

lemma commitFailures_append:
  "commitFailures env pre (a @ b) = commitFailures env pre a @ commitFailures env (pre @ a) b"
  by (induction a arbitrary: pre) simp_all

lemma commitFailures_none:
  "list_all (\<lambda>e. \<not> is_CallContainerCommit e) evs \<Longrightarrow> commitFailures env pre evs = []"
  by (induction evs arbitrary: pre) (auto split: event.splits)

lemma commitFailures_emits:
  assumes "emits A h h'" and "\<And>e. A e \<Longrightarrow> \<not> is_CallContainerCommit e"
  shows "commitFailures env pre (drop (length h) h') = []"
proof -
  have "list_all (\<lambda>e. \<not> is_CallContainerCommit e) (drop (length h) h')"
    using assms by (auto simp: emits_def list_all_iff)
  then show ?thesis by (rule commitFailures_none)
qed

lemma commitFailures_dlog [simp]:
  "commitFailures env pre (evs @ drop (length (h @ evs)) (dlog cfg m (h @ evs))) = commitFailures env pre evs"
  by (simp add: dlog_def commitFailures_append)

text \<open>
  The second loop: what it adds to the history, and that the errors it adds to \<open>errs\<close>
  are the failed commit calls among these events.
\<close>

lemma commitLoop_failures:
  "\<exists>evs. snd (commitLoop env cfg bprint rs errs h) = h @ evs
       \<and> fst (commitLoop env cfg bprint rs errs h) = errs @ commitFailures env h evs
       \<and> list_all (\<lambda>e. is_CallContainerStop e \<or> is_CallContainerCommit e \<or> is_LogPrintf e) evs"
proof (induction rs arbitrary: errs h)
  case Nil
  show ?case by (rule exI[of _ "[]"]) simp
next
  case (Cons r rs)
  let ?A = "\<lambda>e. is_CallContainerStop e \<or> is_CallContainerCommit e \<or> is_LogPrintf e"
  show ?case
  proof (cases "res_err r = None")
    case False
    then show ?thesis using Cons.IH[of errs h] by simp
  next
    case True
    define id where "id = res_containerID r"
    define ctx where "ctx = res_contextStr r"
    define h3 where "h3 = dlog cfg (LogStopped ctx id)
        (dlog cfg (LogStopping ctx id) h @ [CallContainerStop id 10])"
    define opts where "opts = \<lparr>Author = ''Complement'', Pause = True,
        Reference = ''localhost/complement:'' @ ctx,
        Changes = toChanges (commitLabels env bprint r h), ConfigGiven = True\<rparr>"
    define errs1 where "errs1 = errs @ (case ContainerCommit env h3 id opts of
        Inl e \<Rightarrow> [ErrContainerCommit ctx e] | Inr i \<Rightarrow> [])"
    define h5 where "h5 = (case ContainerCommit env h3 id opts of
        Inl e \<Rightarrow> dlog cfg (LogFailedCommit ctx e) (h3 @ [CallContainerCommit id opts])
      | Inr i \<Rightarrow> dlog cfg (LogCreatedImage ctx (ReplaceFirst i ''sha256:'' []))
                  (h3 @ [CallContainerCommit id opts]))"
    have step: "commitLoop env cfg bprint (r # rs) errs h = commitLoop env cfg bprint rs errs1 h5"
      using True
      by (simp add: Let_def id_def ctx_def h3_def opts_def errs1_def h5_def split: sum.splits)
    obtain pre where h3: "h3 = h @ pre" and pre: "list_all is_LogPrintf pre \<or> True"
        and prec: "list_all (\<lambda>e. \<not> is_CallContainerCommit e) pre" and preA: "list_all ?A pre"
      by (cases "DebugLoggingEnabled cfg") (auto simp: h3_def dlog_def)
    obtain post where h5: "h5 = h3 @ CallContainerCommit id opts # post"
        and postc: "list_all (\<lambda>e. \<not> is_CallContainerCommit e) post" and postA: "list_all ?A post"
      by (cases "DebugLoggingEnabled cfg"; cases "ContainerCommit env h3 id opts")
        (auto simp: h5_def dlog_def)
    from Cons.IH[of errs1 h5] obtain evs where
      evs: "snd (commitLoop env cfg bprint rs errs1 h5) = h5 @ evs
        \<and> fst (commitLoop env cfg bprint rs errs1 h5) = errs1 @ commitFailures env h5 evs
        \<and> list_all ?A evs" ..
    have ref: "drop (length ''localhost/complement:'') (Reference opts) = ctx"
      by (simp add: opts_def)
    have cf: "commitFailures env h (pre @ CallContainerCommit id opts # post @ evs)
        = (case ContainerCommit env h3 id opts of
             Inl e \<Rightarrow> [ErrContainerCommit ctx e] | Inr i \<Rightarrow> [])
          @ commitFailures env h5 evs"
      using ref
      by (simp add: commitFailures_append commitFailures_none[OF prec]
          commitFailures_none[OF postc] h3 h5 del: length_append split: sum.splits)
    show ?thesis
      unfolding step
      apply (rule exI[of _ "pre @ CallContainerCommit id opts # post @ evs"])
      using evs cf preA postA by (simp add: h3 h5 errs1_def)
  qed
qed

subsection \<open>The example runs\<close>

lemmas example_defs =
  construct_def createNetworkIfNotExists_def constructHomeserver_def deployBaseImage_def
  commitLabels_def tokenLabels_def toChanges_def deferredKill_def printLogs_def dlog_def
  zeroResult_def label_def complementLabel_def netEvents_def deployArgs_def commitOpts_def
  quietCfg_def debugCfg_def bpOne_def bpTwo_def bpNone_def hs1_def hs2_def idleEnv_def Let_def

lemma stopFail_run:
  "construct stopFailEnv quietCfg bpOne [] =
     ([], netEvents @
        [CallDeployImage (deployArgs ''hs1''), CallRunnerRun hs1 ''http://hs1'',
         CallContainerStop ''ctr_hs1'' 10, CallContainerCommit ''ctr_hs1'' (commitOpts ''hs1'' []),
         CallContainerInspect ''ctr_hs1''])"
  by (simp add: example_defs stopFailEnv_def)





lemma commitFail_provision:
  "provision commitFailEnv quietCfg bpTwo [] = (Inr ''complement_ns_bp'', netEvents)"
  by (simp add: provision_def example_defs commitFailEnv_def)

lemma commitFail_all:
  "constructAll commitFailEnv quietCfg (bpName bpTwo) ''complement_ns_bp'' (Homeservers bpTwo)
     netEvents
   = ([res1, res2],
      netEvents @ [CallDeployImage (deployArgs ''hs1''), CallRunnerRun hs1 ''http://hs1'',
                   CallDeployImage (deployArgs ''hs2''), CallRunnerRun hs2 ''http://hs2''])"
  by (simp add: example_defs commitFailEnv_def res1_def res2_def)

lemma commitFail_run:
  "construct commitFailEnv quietCfg bpTwo [] =
     ([ErrContainerCommit ''ns.bp.hs1'' (ClientErr ''no space'')],
      netEvents @
        [CallDeployImage (deployArgs ''hs1''), CallRunnerRun hs1 ''http://hs1'',
         CallDeployImage (deployArgs ''hs2''), CallRunnerRun hs2 ''http://hs2'',
         CallContainerStop ''ctr_hs1'' 10, CallContainerCommit ''ctr_hs1'' (commitOpts ''hs1'' []),
         CallContainerStop ''ctr_hs2'' 10, CallContainerCommit ''ctr_hs2'' (commitOpts ''hs2'' []),
         CallContainerInspect ''ctr_hs2'', CallContainerInspect ''ctr_hs1''])"
  by (simp add: example_defs commitFailEnv_def)

subsection \<open>A homeserver that fails\<close>






subsection \<open>The commit pipeline and the deferred kills\<close>

lemma before_commits_not_counted:
  "is_CallNetworkList e \<or> is_CallNetworkCreate e \<or> is_CallDeployImage e \<or> is_CallRunnerRun e
     \<or> is_LogPrintf e \<Longrightarrow>
   list_all (\<lambda>c. \<not> (is_Stopped c \<or> is_Committed c \<or> is_Removed c \<or> is_Inspected c)) (ccallOf e)"
  by (cases e) simp_all

lemma deferred_no_stop_commit:
  "is_CallContainerInspect e \<or> is_CallContainerKill e \<or> is_LogPrintf e \<Longrightarrow>
   list_all (\<lambda>c. \<not> (is_Stopped c \<or> is_Committed c)) (ccallOf e)"
  by (cases e) simp_all

lemma setup_emits:
  assumes "provision env cfg bprint h = (Inr nw, h1)"
    and "constructAll env cfg (bpName bprint) nw hss h1 = (rs, h2)"
  shows "emits (\<lambda>e. is_CallNetworkList e \<or> is_CallNetworkCreate e \<or> is_CallDeployImage e
                  \<or> is_CallRunnerRun e \<or> is_LogPrintf e) h h2"
proof -
  let ?B = "\<lambda>e. is_CallNetworkList e \<or> is_CallNetworkCreate e \<or> is_CallDeployImage e
                  \<or> is_CallRunnerRun e \<or> is_LogPrintf e"
  have "emits ?B h (snd (provision env cfg bprint h))"
    by (rule emits_mono[OF provision_emits]) auto
  then have 1: "emits ?B h h1" using assms(1) by simp
  have "emits ?B h1 (snd (constructAll env cfg (bpName bprint) nw hss h1))"
    by (rule emits_mono[OF constructAll_emits]) auto
  then have 2: "emits ?B h1 h2" using assms(2) by simp
  show ?thesis by (rule emits_trans[OF 1 2])
qed

text \<open>
  When every homeserver is constructed without error, the errors that \<open>construct\<close>
  returns are the failed commit calls of the run, and nothing else.
\<close>

lemma construct_errs_commit_failures:
  assumes "provision env cfg bprint h = (Inr nw, h1)"
    and "constructAll env cfg (bpName bprint) nw (Homeservers bprint) h1 = (rs, h2)"
    and "\<forall>r\<in>set rs. res_err r = None"
  shows "fst (construct env cfg bprint h)
       = commitFailures env h (drop (length h) (snd (construct env cfg bprint h)))"
proof -
  let ?CL = "commitLoop env cfg bprint rs [] h2"
  have c: "construct env cfg bprint h = (fst ?CL, runDeferred env cfg (rev rs) (snd ?CL))"
    by (rule construct_success[OF assms])
  from setup_emits[OF assms(1) assms(2)] obtain e12 where
    e12: "h2 = h @ e12 \<and> list_all (\<lambda>e. is_CallNetworkList e \<or> is_CallNetworkCreate e
             \<or> is_CallDeployImage e \<or> is_CallRunnerRun e \<or> is_LogPrintf e) e12"
    unfolding emits_iff ..
  from commitLoop_failures[of env cfg bprint rs "[]" h2] obtain evs where
    evs: "snd ?CL = h2 @ evs \<and> fst ?CL = [] @ commitFailures env h2 evs
       \<and> list_all (\<lambda>e. is_CallContainerStop e \<or> is_CallContainerCommit e \<or> is_LogPrintf e) evs" ..
  from runDeferred_emits[of "snd ?CL" env cfg "rev rs"] obtain kd where
    kd: "runDeferred env cfg (rev rs) (snd ?CL) = snd ?CL @ kd
       \<and> list_all (\<lambda>e. is_CallContainerInspect e \<or> is_CallContainerKill e \<or> is_LogPrintf e) kd"
    unfolding emits_iff ..
  have n12: "list_all (\<lambda>e. \<not> is_CallContainerCommit e) e12"
    using e12 by (auto simp: list_all_iff)
  have nkd: "list_all (\<lambda>e. \<not> is_CallContainerCommit e) kd"
    using kd by (auto simp: list_all_iff)
  have hf: "snd (construct env cfg bprint h) = h @ (e12 @ evs @ kd)"
    using c e12 evs kd by simp
  have "commitFailures env h (e12 @ evs @ kd) = commitFailures env h2 evs"
    using e12 by (simp add: commitFailures_append commitFailures_none[OF n12]
        commitFailures_none[OF nkd])
  then show ?thesis
    unfolding hf using c evs by simp
qed

lemma construct_stops_and_commits:
  assumes "provision env cfg bprint h = (Inr nw, h1)"
    and "constructAll env cfg (bpName bprint) nw (Homeservers bprint) h1 = (rs, h2)"
    and "\<forall>r\<in>set rs. res_err r = None"
  shows "ccalls (snd (commitLoop env cfg bprint rs [] h2))
       = ccalls h2 @ concat (map (\<lambda>r. [Stopped (res_containerID r) 10, Committed (res_containerID r)]) rs)"
  by (rule ccalls_commitLoop[OF assms(3)])

lemma filter_stop_commit:
  "filter (\<lambda>c. is_Stopped c \<or> is_Committed c)
     (concat (map (\<lambda>r. [Stopped (res_containerID r) 10, Committed (res_containerID r)]) rs))
   = concat (map (\<lambda>r. [Stopped (res_containerID r) 10, Committed (res_containerID r)]) rs)"
  by (induction rs) simp_all


text \<open>
  C7. The claim has a failed stop recorded in the returned errors. The answer of
  \<open>ContainerStop\<close> is dropped: on a daemon that cannot stop containers the container is
  committed all the same and \<open>construct\<close> returns no error.
\<close>

theorem stop_failure_not_recorded_counterexample:
  "construct stopFailEnv quietCfg bpOne [] =
     ([], netEvents @
        [CallDeployImage (deployArgs ''hs1''), CallRunnerRun hs1 ''http://hs1'',
         CallContainerStop ''ctr_hs1'' 10, CallContainerCommit ''ctr_hs1'' (commitOpts ''hs1'' []),
         CallContainerInspect ''ctr_hs1''])
   \<and> ContainerStop stopFailEnv
        (netEvents @ [CallDeployImage (deployArgs ''hs1''), CallRunnerRun hs1 ''http://hs1''])
        ''ctr_hs1'' 10 = Some (ClientErr ''cannot stop'')"
  by (simp add: stopFail_run) (simp add: stopFailEnv_def)

text \<open>
  C7, amended. When every homeserver of the blueprint is constructed without error, the
  stop and commit calls of \<open>construct\<close> are, for each homeserver in the order of
  construction, a stop of its container with a timeout of 10 seconds followed by the
  commit of that container: a commit is attempted for every homeserver, whatever became
  of the commits before it. The errors returned are exactly the failed commit calls,
  in order; what the stop call answers is not looked at.
\<close>

theorem commit_pipeline_stops_then_commits:
  assumes "provision env cfg bprint h = (Inr nw, h1)"
    and "constructAll env cfg (bpName bprint) nw (Homeservers bprint) h1 = (rs, h2)"
    and "\<forall>r\<in>set rs. res_err r = None"
  shows "filter (\<lambda>c. is_Stopped c \<or> is_Committed c) (ccalls (snd (construct env cfg bprint h)))
       = filter (\<lambda>c. is_Stopped c \<or> is_Committed c) (ccalls h)
         @ concat (map (\<lambda>r. [Stopped (res_containerID r) 10, Committed (res_containerID r)]) rs)
     \<and> fst (construct env cfg bprint h)
       = commitFailures env h (drop (length h) (snd (construct env cfg bprint h)))"
proof -
  let ?SC = "\<lambda>c. is_Stopped c \<or> is_Committed c"
  let ?CL = "commitLoop env cfg bprint rs [] h2"
  have c: "snd (construct env cfg bprint h) = runDeferred env cfg (rev rs) (snd ?CL)"
    using construct_success[OF assms] by simp
  have 1: "filter ?SC (ccalls (runDeferred env cfg (rev rs) (snd ?CL))) = filter ?SC (ccalls (snd ?CL))"
    by (rule ccalls_emits[OF runDeferred_emits deferred_no_stop_commit])
  have 2: "filter ?SC (ccalls h2) = filter ?SC (ccalls h)"
    by (rule ccalls_emits[OF setup_emits[OF assms(1) assms(2)]])
      (use before_commits_not_counted in \<open>auto simp: list_all_iff\<close>)
  have "filter ?SC (ccalls (snd (construct env cfg bprint h)))
       = filter ?SC (ccalls h)
         @ concat (map (\<lambda>r. [Stopped (res_containerID r) 10, Committed (res_containerID r)]) rs)"
    unfolding c 1 construct_stops_and_commits[OF assms] by (simp add: 2 filter_stop_commit)
  then show ?thesis using construct_errs_commit_failures[OF assms] by simp
qed

theorem commit_pipeline_stops_then_commits_witness:
  "filter (\<lambda>c. is_Stopped c \<or> is_Committed c) (ccalls (snd (construct commitFailEnv quietCfg bpTwo [])))
     = [Stopped ''ctr_hs1'' 10, Committed ''ctr_hs1'', Stopped ''ctr_hs2'' 10, Committed ''ctr_hs2'']
   \<and> commitFailures commitFailEnv []
        (drop (length ([]::history)) (snd (construct commitFailEnv quietCfg bpTwo [])))
     = [ErrContainerCommit ''ns.bp.hs1'' (ClientErr ''no space'')]"
proof -
  have ok: "\<forall>r\<in>set [res1, res2]. res_err r = None" by (simp add: res1_def res2_def)
  from commit_pipeline_stops_then_commits[OF commitFail_provision commitFail_all ok]
  show ?thesis by (simp add: res1_def res2_def commitFail_run)
qed






subsection \<open>What the commit call receives\<close>

lemma toChanges_line: "map_of labels k = Some v \<Longrightarrow> labelLine k v \<in> set (toChanges labels)"
proof -
  assume "map_of labels k = Some v"
  then have "(k, v) \<in> set labels" by (rule map_of_SomeD)
  then show ?thesis by (force simp: toChanges_def labelLine_def)
qed

lemma commitLoop_step:
  assumes "res_err r = None"
  shows "\<exists>pre post errs1.
      commitLoop env cfg bprint (r # rs) errs h
        = commitLoop env cfg bprint rs errs1
            (h @ pre @ CallContainerCommit (res_containerID r) (commitOptionsOf env bprint r h) # post)
      \<and> list_all (\<lambda>e. \<not> is_CallContainerCommit e) pre
      \<and> list_all (\<lambda>e. \<not> is_CallContainerCommit e) post"
proof -
  define id where "id = res_containerID r"
  define ctx where "ctx = res_contextStr r"
  define pre where "pre = (if DebugLoggingEnabled cfg then [LogPrintf (LogStopping ctx id)] else [])
      @ [CallContainerStop id 10]
      @ (if DebugLoggingEnabled cfg then [LogPrintf (LogStopped ctx id)] else [])"
  define opts where "opts = commitOptionsOf env bprint r h"
  define post where "post = (case ContainerCommit env (h @ pre) id opts of
        Inl e \<Rightarrow> if DebugLoggingEnabled cfg then [LogPrintf (LogFailedCommit ctx e)] else []
      | Inr i \<Rightarrow> if DebugLoggingEnabled cfg
                  then [LogPrintf (LogCreatedImage ctx (ReplaceFirst i ''sha256:'' []))] else [])"
  define errs1 where "errs1 = (case ContainerCommit env (h @ pre) id opts of
        Inl e \<Rightarrow> errs @ [ErrContainerCommit ctx e] | Inr i \<Rightarrow> errs)"
  have step: "commitLoop env cfg bprint (r # rs) errs h
      = commitLoop env cfg bprint rs errs1 (h @ pre @ CallContainerCommit id opts # post)"
    using assms
    by (simp add: Let_def id_def ctx_def pre_def opts_def post_def errs1_def dlog_def
        commitOptionsOf_def split: sum.splits)
  have 1: "list_all (\<lambda>e. \<not> is_CallContainerCommit e) pre" by (simp add: pre_def)
  have 2: "list_all (\<lambda>e. \<not> is_CallContainerCommit e) post"
    by (simp add: post_def split: sum.splits)
  show ?thesis
    apply (rule exI[of _ pre], rule exI[of _ post], rule exI[of _ errs1])
    using step 1 2 by (simp add: id_def opts_def)
qed

lemma commitLoop_extends: "prefix h (snd (commitLoop env cfg bprint rs errs h))"
  using commitLoop_failures[of env cfg bprint rs errs h] by (auto simp: prefix_def)

text \<open>
  Every commit call of the second loop is the commit of one of the results, with the
  options made of the labels collected at a history of the loop.
\<close>

lemma commitLoop_commits:
  assumes "CallContainerCommit c opts \<in> set (drop (length h) (snd (commitLoop env cfg bprint rs errs h)))"
  shows "\<exists>r\<in>set rs. \<exists>h'. prefix h h' \<and> prefix h' (snd (commitLoop env cfg bprint rs errs h))
           \<and> c = res_containerID r \<and> opts = commitOptionsOf env bprint r h'"
  using assms
proof (induction rs arbitrary: errs h)
  case Nil
  then show ?case by simp
next
  case (Cons r rs)
  show ?case
  proof (cases "res_err r = None")
    case False
    then have "CallContainerCommit c opts
        \<in> set (drop (length h) (snd (commitLoop env cfg bprint rs errs h)))"
      using Cons.prems by simp
    from Cons.IH[OF this] False show ?thesis by auto
  next
    case True
    from commitLoop_step[OF True, of env cfg bprint rs errs h] obtain pre post errs1 where
      st: "commitLoop env cfg bprint (r # rs) errs h
        = commitLoop env cfg bprint rs errs1
            (h @ pre @ CallContainerCommit (res_containerID r) (commitOptionsOf env bprint r h) # post)
      \<and> list_all (\<lambda>e. \<not> is_CallContainerCommit e) pre
      \<and> list_all (\<lambda>e. \<not> is_CallContainerCommit e) post" by blast
    let ?h5 = "h @ pre @ CallContainerCommit (res_containerID r) (commitOptionsOf env bprint r h) # post"
    let ?hf = "snd (commitLoop env cfg bprint rs errs1 ?h5)"
    obtain evs where evs: "?hf = ?h5 @ evs"
      using commitLoop_extends[of ?h5 env cfg bprint rs errs1] by (auto simp: prefix_def)
    have hf: "snd (commitLoop env cfg bprint (r # rs) errs h) = ?hf" using st by simp
    have mem: "CallContainerCommit c opts
        \<in> set (pre @ CallContainerCommit (res_containerID r) (commitOptionsOf env bprint r h) # post @ evs)"
      using Cons.prems unfolding hf by (simp add: evs)
    have np: "CallContainerCommit c opts \<notin> set pre" "CallContainerCommit c opts \<notin> set post"
      using st by (auto simp: list_all_iff)
    from mem np have "(c = res_containerID r \<and> opts = commitOptionsOf env bprint r h)
        \<or> CallContainerCommit c opts \<in> set evs" by auto
    then show ?thesis
    proof
      assume "c = res_containerID r \<and> opts = commitOptionsOf env bprint r h"
      moreover have "prefix h ?hf" unfolding evs by (simp add: prefix_def)
      ultimately show ?thesis unfolding hf by (intro bexI[of _ r] exI[of _ h]) simp_all
    next
      assume "CallContainerCommit c opts \<in> set evs"
      then have "CallContainerCommit c opts \<in> set (drop (length ?h5) ?hf)"
        by (simp add: evs)
      from Cons.IH[OF this] obtain r' h' where
        r': "r' \<in> set rs" "prefix ?h5 h'" "prefix h' ?hf"
            "c = res_containerID r'" "opts = commitOptionsOf env bprint r' h'" by blast
      have "prefix h h'" using r'(2) by (auto simp: prefix_def)
      then show ?thesis unfolding hf using r' by (intro bexI[of _ r'] exI[of _ h']) simp_all
    qed
  qed
qed

lemma commitLoop_commits_all:
  assumes "\<forall>r\<in>set rs. res_err r = None" and "r \<in> set rs"
  shows "\<exists>opts. CallContainerCommit (res_containerID r) opts
           \<in> set (drop (length h) (snd (commitLoop env cfg bprint rs errs h)))"
  using assms
proof (induction rs arbitrary: errs h)
  case Nil
  then show ?case by simp
next
  case (Cons r0 rs)
  have ok: "res_err r0 = None" using Cons.prems by simp
  from commitLoop_step[OF ok, of env cfg bprint rs errs h] obtain pre post errs1 where
    st: "commitLoop env cfg bprint (r0 # rs) errs h
      = commitLoop env cfg bprint rs errs1
          (h @ pre @ CallContainerCommit (res_containerID r0) (commitOptionsOf env bprint r0 h) # post)
    \<and> list_all (\<lambda>e. \<not> is_CallContainerCommit e) pre
    \<and> list_all (\<lambda>e. \<not> is_CallContainerCommit e) post" by blast
  let ?h5 = "h @ pre @ CallContainerCommit (res_containerID r0) (commitOptionsOf env bprint r0 h) # post"
  let ?hf = "snd (commitLoop env cfg bprint rs errs1 ?h5)"
  obtain evs where evs: "?hf = ?h5 @ evs"
    using commitLoop_extends[of ?h5 env cfg bprint rs errs1] by (auto simp: prefix_def)
  have hf: "snd (commitLoop env cfg bprint (r0 # rs) errs h) = ?hf" using st by simp
  show ?case
  proof (cases "r = r0")
    case True
    show ?thesis unfolding hf
      by (rule exI[of _ "commitOptionsOf env bprint r0 h"]) (simp add: evs True)
  next
    case False
    then have "r \<in> set rs" using Cons.prems by simp
    from Cons.IH[OF _ this, of ?h5 errs1] Cons.prems obtain opts where
      "CallContainerCommit (res_containerID r) opts \<in> set (drop (length ?h5) ?hf)" by auto
    then have "CallContainerCommit (res_containerID r) opts \<in> set evs" by (simp add: evs)
    then show ?thesis unfolding hf by (intro exI[of _ opts]) (simp add: evs)
  qed
qed

lemma keptToken_commitLabels:
  assumes "distinct (map fst (AccessTokens env h (Name (res_homeserver res))))"
    and "''access_token_'' @ u \<notin> fst ` set (labelsForApplicationServices env (res_homeserver res))"
  shows "map_of (commitLabels env bprint res h) (''access_token_'' @ u)
       = keptToken (KeepAccessTokensForUsers bprint) (AccessTokens env h (Name (res_homeserver res))) u"
proof -
  have dev: "''access_token_'' @ u
      \<notin> (\<lambda>x. ''device_id'' @ x) ` fst ` set (DeviceIDs env h (Name (res_homeserver res)))"
    by auto
  have as: "''access_token_'' @ u
      \<notin> (\<lambda>x. [] @ x) ` fst ` set (labelsForApplicationServices env (res_homeserver res))"
    using assms(2) by simp
  show ?thesis
    unfolding commitLabels_def Let_def keptToken_def
    by (simp only: map_of_addLabels_other[OF as] map_of_addLabels_other[OF dev]
        map_of_tokenLabels[OF disjI2[OF assms(1)]])
qed

text \<open>
  C4. Let every homeserver of the blueprint be constructed without error. Then a commit
  call is issued for the container of each of them, and every commit call of the run is
  the commit of one of these containers whose \<open>Changes\<close> are \<open>toChanges\<close> of the labels
  collected, after the construction, for that homeserver. In these labels the key
  \<open>access_token_u\<close> follows the allow-list: with a non-empty allow-list it holds the
  captured token of \<open>u\<close> when \<open>u\<close> is listed and is absent otherwise; with an empty
  allow-list it holds the captured token of \<open>u\<close>, whoever \<open>u\<close> is; and a token that is
  kept is handed to the commit as the line \<open>LABEL "access_token_u"="token"\<close>. The
  captured tokens are a Go map (no key twice), and the labels that
  \<open>labelsForApplicationServices\<close> adds afterwards, a helper that is not in builder.go,
  are taken not to use the key; the device labels cannot touch it.
\<close>

theorem committed_image_carries_allowed_tokens:
  assumes "provision env cfg bprint h = (Inr nw, h1)"
    and "constructAll env cfg (bpName bprint) nw (Homeservers bprint) h1 = (rs, h2)"
    and "\<forall>r\<in>set rs. res_err r = None"
    and "\<forall>h' n. distinct (map fst (AccessTokens env h' n))"
    and "\<forall>hs. ''access_token_'' @ u \<notin> fst ` set (labelsForApplicationServices env hs)"
  shows "(\<forall>r\<in>set rs. \<exists>opts. CallContainerCommit (res_containerID r) opts
              \<in> set (drop (length h) (snd (construct env cfg bprint h))))
     \<and> (\<forall>c opts. CallContainerCommit c opts \<in> set (drop (length h) (snd (construct env cfg bprint h)))
          \<longrightarrow> (\<exists>r\<in>set rs. \<exists>h'. prefix h2 h' \<and> prefix h' (snd (construct env cfg bprint h))
                 \<and> c = res_containerID r
                 \<and> Reference opts = ''localhost/complement:'' @ res_contextStr r
                 \<and> Changes opts = toChanges (commitLabels env bprint r h')
                 \<and> map_of (commitLabels env bprint r h') (''access_token_'' @ u)
                     = keptToken (KeepAccessTokensForUsers bprint)
                         (AccessTokens env h' (Name (res_homeserver r))) u
                 \<and> (\<forall>tok. keptToken (KeepAccessTokensForUsers bprint)
                             (AccessTokens env h' (Name (res_homeserver r))) u = Some tok
                        \<longrightarrow> labelLine (''access_token_'' @ u) tok \<in> set (Changes opts))))"
proof -
  let ?CL = "commitLoop env cfg bprint rs [] h2"
  let ?hf = "snd (construct env cfg bprint h)"
  have c: "?hf = runDeferred env cfg (rev rs) (snd ?CL)"
    using construct_success[OF assms(1) assms(2) assms(3)] by simp
  from setup_emits[OF assms(1) assms(2)] obtain e12 where
    e12: "h2 = h @ e12 \<and> list_all (\<lambda>e. is_CallNetworkList e \<or> is_CallNetworkCreate e
             \<or> is_CallDeployImage e \<or> is_CallRunnerRun e \<or> is_LogPrintf e) e12"
    unfolding emits_iff ..
  obtain evs where evs: "snd ?CL = h2 @ evs"
    using commitLoop_extends[of h2 env cfg bprint rs "[]"] by (auto simp: prefix_def)
  from runDeferred_emits[of "snd ?CL" env cfg "rev rs"] obtain kd where
    kd: "runDeferred env cfg (rev rs) (snd ?CL) = snd ?CL @ kd
       \<and> list_all (\<lambda>e. is_CallContainerInspect e \<or> is_CallContainerKill e \<or> is_LogPrintf e) kd"
    unfolding emits_iff ..
  have hf: "?hf = h @ e12 @ evs @ kd" using c e12 evs kd by simp
  have dr: "drop (length h) ?hf = e12 @ evs @ kd" by (simp add: hf)
  have dr2: "drop (length h2) (snd ?CL) = evs" by (simp add: evs)
  have pf: "prefix (snd ?CL) ?hf" using c kd by (simp add: prefix_def)
  have part1: "\<forall>r\<in>set rs. \<exists>opts. CallContainerCommit (res_containerID r) opts
              \<in> set (drop (length h) ?hf)"
  proof
    fix r assume r: "r \<in> set rs"
    from commitLoop_commits_all[OF assms(3) r, of h2 env cfg bprint "[]"] obtain opts where
      "CallContainerCommit (res_containerID r) opts \<in> set evs" unfolding dr2 ..
    then show "\<exists>opts. CallContainerCommit (res_containerID r) opts \<in> set (drop (length h) ?hf)"
      unfolding dr by (intro exI[of _ opts]) simp
  qed
  have part2: "\<forall>c opts. CallContainerCommit c opts \<in> set (drop (length h) ?hf)
          \<longrightarrow> (\<exists>r\<in>set rs. \<exists>h'. prefix h2 h' \<and> prefix h' ?hf
                 \<and> c = res_containerID r
                 \<and> Reference opts = ''localhost/complement:'' @ res_contextStr r
                 \<and> Changes opts = toChanges (commitLabels env bprint r h')
                 \<and> map_of (commitLabels env bprint r h') (''access_token_'' @ u)
                     = keptToken (KeepAccessTokensForUsers bprint)
                         (AccessTokens env h' (Name (res_homeserver r))) u
                 \<and> (\<forall>tok. keptToken (KeepAccessTokensForUsers bprint)
                             (AccessTokens env h' (Name (res_homeserver r))) u = Some tok
                        \<longrightarrow> labelLine (''access_token_'' @ u) tok \<in> set (Changes opts)))"
  proof (intro allI impI)
    fix c opts
    assume m: "CallContainerCommit c opts \<in> set (drop (length h) ?hf)"
    have "CallContainerCommit c opts \<notin> set e12" "CallContainerCommit c opts \<notin> set kd"
      using e12 kd by (auto simp: list_all_iff)
    with m have "CallContainerCommit c opts \<in> set (drop (length h2) (snd ?CL))"
      unfolding dr dr2 by simp
    from commitLoop_commits[OF this] obtain r h' where
      r: "r \<in> set rs" "prefix h2 h'" "prefix h' (snd ?CL)"
         "c = res_containerID r" "opts = commitOptionsOf env bprint r h'" by blast
    have k: "map_of (commitLabels env bprint r h') (''access_token_'' @ u)
        = keptToken (KeepAccessTokensForUsers bprint) (AccessTokens env h' (Name (res_homeserver r))) u"
      by (rule keptToken_commitLabels) (use assms(4) assms(5) in simp_all)
    have l: "\<forall>tok. keptToken (KeepAccessTokensForUsers bprint)
                 (AccessTokens env h' (Name (res_homeserver r))) u = Some tok
            \<longrightarrow> labelLine (''access_token_'' @ u) tok \<in> set (Changes opts)"
      using toChanges_line[of "commitLabels env bprint r h'" "''access_token_'' @ u"] k r(5)
      by (simp add: commitOptionsOf_def)
    have p: "prefix h' ?hf" using r(3) pf by (rule prefix_order.trans)
    show "\<exists>r\<in>set rs. \<exists>h'. prefix h2 h' \<and> prefix h' ?hf
                 \<and> c = res_containerID r
                 \<and> Reference opts = ''localhost/complement:'' @ res_contextStr r
                 \<and> Changes opts = toChanges (commitLabels env bprint r h')
                 \<and> map_of (commitLabels env bprint r h') (''access_token_'' @ u)
                     = keptToken (KeepAccessTokensForUsers bprint)
                         (AccessTokens env h' (Name (res_homeserver r))) u
                 \<and> (\<forall>tok. keptToken (KeepAccessTokensForUsers bprint)
                             (AccessTokens env h' (Name (res_homeserver r))) u = Some tok
                        \<longrightarrow> labelLine (''access_token_'' @ u) tok \<in> set (Changes opts))"
      apply (rule bexI[of _ r], rule exI[of _ h'])
      using r(2) p r(4) r(5) k l by (simp_all add: commitOptionsOf_def r(1))
  qed
  show ?thesis using part1 part2 by (rule conjI)
qed

lemma token_provision:
  "provision tokenEnv quietCfg bpOne [] = (Inr ''complement_ns_bp'', netEvents)"
  by (simp add: provision_def example_defs tokenEnv_def)

lemma token_all:
  "constructAll tokenEnv quietCfg (bpName bpOne) ''complement_ns_bp'' (Homeservers bpOne) netEvents
   = ([res1], netEvents @ [CallDeployImage (deployArgs ''hs1''), CallRunnerRun hs1 ''http://hs1''])"
  by (simp add: example_defs tokenEnv_def res1_def)

lemma token_run:
  "construct tokenEnv quietCfg bpOne [] =
     ([], netEvents @
        [CallDeployImage (deployArgs ''hs1''), CallRunnerRun hs1 ''http://hs1'',
         CallContainerStop ''ctr_hs1'' 10,
         CallContainerCommit ''ctr_hs1''
           (commitOpts ''hs1'' [labelLine ''access_token_@alice:x'' ''tokA'',
                                labelLine ''device_id@alice:x'' ''devA'']),
         CallContainerInspect ''ctr_hs1''])"
  by (simp add: example_defs tokenEnv_def labelLine_def)

theorem committed_image_carries_allowed_tokens_witness:
  "CallContainerCommit ''ctr_hs1''
       (commitOpts ''hs1'' [labelLine ''access_token_@alice:x'' ''tokA'',
                            labelLine ''device_id@alice:x'' ''devA''])
     \<in> set (drop (length ([]::history)) (snd (construct tokenEnv quietCfg bpOne [])))
   \<and> (\<exists>h'. Changes (commitOpts ''hs1'' [labelLine ''access_token_@alice:x'' ''tokA'',
                                         labelLine ''device_id@alice:x'' ''devA''])
             = toChanges (commitLabels tokenEnv bpOne res1 h')
          \<and> map_of (commitLabels tokenEnv bpOne res1 h') (''access_token_'' @ ''@bob:x'')
             = keptToken (KeepAccessTokensForUsers bpOne)
                 (AccessTokens tokenEnv h' (Name (res_homeserver res1))) ''@bob:x'')
   \<and> keptToken (KeepAccessTokensForUsers bpOne)
        [(''@alice:x'', ''tokA''), (''@bob:x'', ''tokB'')] ''@bob:x'' = None"
proof -
  let ?O = "commitOpts ''hs1'' [labelLine ''access_token_@alice:x'' ''tokA'',
                              labelLine ''device_id@alice:x'' ''devA'']"
  have ok: "\<forall>r\<in>set [res1]. res_err r = None" by (simp add: res1_def)
  have d: "\<forall>h' n. distinct (map fst (AccessTokens tokenEnv h' n))"
    by (simp add: tokenEnv_def idleEnv_def)
  have a: "\<forall>hs. ''access_token_'' @ ''@bob:x''
      \<notin> fst ` set (labelsForApplicationServices tokenEnv hs)"
    by (simp add: tokenEnv_tokens)
  have m: "CallContainerCommit ''ctr_hs1'' ?O
      \<in> set (drop (length ([]::history)) (snd (construct tokenEnv quietCfg bpOne [])))"
    by (simp add: token_run)
  from committed_image_carries_allowed_tokens[OF token_provision token_all ok d a]
  have "\<forall>c opts. CallContainerCommit c opts
          \<in> set (drop (length ([]::history)) (snd (construct tokenEnv quietCfg bpOne [])))
          \<longrightarrow> (\<exists>r\<in>set [res1]. \<exists>h'.
                 prefix (netEvents @ [CallDeployImage (deployArgs ''hs1''),
                                      CallRunnerRun hs1 ''http://hs1'']) h'
                 \<and> prefix h' (snd (construct tokenEnv quietCfg bpOne []))
                 \<and> c = res_containerID r
                 \<and> Reference opts = ''localhost/complement:'' @ res_contextStr r
                 \<and> Changes opts = toChanges (commitLabels tokenEnv bpOne r h')
                 \<and> map_of (commitLabels tokenEnv bpOne r h') (''access_token_'' @ ''@bob:x'')
                     = keptToken (KeepAccessTokensForUsers bpOne)
                         (AccessTokens tokenEnv h' (Name (res_homeserver r))) ''@bob:x''
                 \<and> (\<forall>tok. keptToken (KeepAccessTokensForUsers bpOne)
                             (AccessTokens tokenEnv h' (Name (res_homeserver r))) ''@bob:x'' = Some tok
                        \<longrightarrow> labelLine (''access_token_'' @ ''@bob:x'') tok \<in> set (Changes opts)))"
    by (rule conjunct2)
  from this[rule_format, OF m] obtain r where
    rin: "r \<in> set [res1]" and
    ex: "\<exists>h'. prefix (netEvents @ [CallDeployImage (deployArgs ''hs1''),
                                      CallRunnerRun hs1 ''http://hs1'']) h'
                 \<and> prefix h' (snd (construct tokenEnv quietCfg bpOne []))
                 \<and> ''ctr_hs1'' = res_containerID r
                 \<and> Reference ?O = ''localhost/complement:'' @ res_contextStr r
                 \<and> Changes ?O = toChanges (commitLabels tokenEnv bpOne r h')
                 \<and> map_of (commitLabels tokenEnv bpOne r h') (''access_token_'' @ ''@bob:x'')
                     = keptToken (KeepAccessTokensForUsers bpOne)
                         (AccessTokens tokenEnv h' (Name (res_homeserver r))) ''@bob:x''
                 \<and> (\<forall>tok. keptToken (KeepAccessTokensForUsers bpOne)
                             (AccessTokens tokenEnv h' (Name (res_homeserver r))) ''@bob:x'' = Some tok
                        \<longrightarrow> labelLine (''access_token_'' @ ''@bob:x'') tok \<in> set (Changes ?O))" ..
  have r1: "r = res1" using rin by simp
  from ex obtain h' where
    h': "prefix (netEvents @ [CallDeployImage (deployArgs ''hs1''),
                                      CallRunnerRun hs1 ''http://hs1'']) h'
                 \<and> prefix h' (snd (construct tokenEnv quietCfg bpOne []))
                 \<and> ''ctr_hs1'' = res_containerID r
                 \<and> Reference ?O = ''localhost/complement:'' @ res_contextStr r
                 \<and> Changes ?O = toChanges (commitLabels tokenEnv bpOne r h')
                 \<and> map_of (commitLabels tokenEnv bpOne r h') (''access_token_'' @ ''@bob:x'')
                     = keptToken (KeepAccessTokensForUsers bpOne)
                         (AccessTokens tokenEnv h' (Name (res_homeserver r))) ''@bob:x''
                 \<and> (\<forall>tok. keptToken (KeepAccessTokensForUsers bpOne)
                             (AccessTokens tokenEnv h' (Name (res_homeserver r))) ''@bob:x'' = Some tok
                        \<longrightarrow> labelLine (''access_token_'' @ ''@bob:x'') tok \<in> set (Changes ?O))" ..
  have e: "\<exists>h'. Changes ?O = toChanges (commitLabels tokenEnv bpOne res1 h')
      \<and> map_of (commitLabels tokenEnv bpOne res1 h') (''access_token_'' @ ''@bob:x'')
         = keptToken (KeepAccessTokensForUsers bpOne)
             (AccessTokens tokenEnv h' (Name (res_homeserver res1))) ''@bob:x''"
    apply (rule exI[of _ h'])
    using h'[unfolded r1] by (elim conjE) (rule conjI)
  have k: "keptToken (KeepAccessTokensForUsers bpOne)
        [(''@alice:x'', ''tokA''), (''@bob:x'', ''tokB'')] ''@bob:x'' = None"
    by (simp add: keptToken_def bpOne_def)
  show ?thesis using m e k by (intro conjI)
qed

subsection \<open>The polling loop\<close>


lemma pollEvents_0 [simp]: "pollEvents cfg bprint 0 = []"
  by (simp add: pollEvents_def)






subsection \<open>ConstructBlueprint\<close>








end
